theory Spec2Isabelle
  imports Complex_Main "HOL-Library.AList" "HOL-Library.Log_Nat"
begin

section \<open>A naive Bayes spam filter: the notebook \<open>bayes_spamfilter.ipynb\<close>\<close>

text \<open>
  The notebook trains on a table of rows \<open>(Label, SMS)\<close> and leaves four globals behind, which
  the function \<open>classify\<close> reads: \<open>p_spam\<close>, \<open>p_ham\<close>, \<open>p_given_spam\<close>, \<open>p_given_ham\<close>.
  Each cell is embedded as a function of the variables it reads.

  Conventions of the embedding.
  \<^item> A Python \<open>str\<close> is a \<open>string\<close>; a \<open>char\<close> stands for the code point of the same number,
    so the strings covered are those over the code points 0..255. The character classes of
    \<open>re\<close> and \<open>str\<close> below are Python's, restricted to that range.
  \<^item> A \<open>dict\<close> and a pandas \<open>Series\<close> indexed by keys are association lists, read with
    \<open>map_of\<close>; a column of a \<open>DataFrame\<close> is a list with one entry for each row.
  \<^item> The integers of numpy are \<open>nat\<close> (the counts are sums of list lengths and stay far from
    \<open>2^53\<close>, so they convert to floats without rounding).
  \<^item> A float is the \<open>real\<close> it denotes. A float operation is the exact operation followed by
    a rounding \<open>rnd\<close>, an argument of every function that divides or multiplies floats:
    \<open>f64\<close> below is the rounding of the code, \<open>exact\<close> is no rounding at all.
  \<^item> An exception is a value \<open>Inl e\<close> of the type \<open>error + 'a\<close>. A division of numpy does
    not raise: on a zero denominator it yields \<open>inf\<close> or \<open>nan\<close>, which \<open>real\<close> does not have.
    With \<open>0 < alpha\<close> no denominator of the notebook is zero, and the theorems about the
    values of the tables assume it.
\<close>

datatype error = KeyError string | IndexError

subsection \<open>Floating point\<close>

text \<open>
  numpy's \<open>float64\<close> is IEEE 754 binary64: a multiplication or division returns the exact
  result rounded to the nearest double, ties to the even mantissa. A double is a multiple of
  the unit in its last place, \<open>2^(e - 52)\<close> for a value in \<open>[2^e, 2^(e + 1))\<close>, and of
  \<open>2^(-1074)\<close> below \<open>2^(-1022)\<close>, so the smallest positive double is \<open>2^(-1074)\<close>. The values of
  the notebook lie between 0 and 1: overflow does not occur, and \<open>f64\<close> has no largest
  exponent.
\<close>

definition rne :: "real \<Rightarrow> int" where
  \<comment> \<open>the nearest integer, the even one of two that are equally near\<close>
  "rne q = (let f = \<lfloor>q\<rfloor>; d = q - of_int f
            in if d < 1 / 2 then f else if 1 / 2 < d then f + 1 else if even f then f else f + 1)"

definition exponent :: "real \<Rightarrow> int" where
  \<comment> \<open>for \<open>0 < x\<close> the \<open>e\<close> with \<open>2^e \<le> x < 2^(e + 1)\<close>, from the number of bits of an integer\<close>
  "exponent x = (if 1 \<le> x then bitlen \<lfloor>x\<rfloor> - 1 else - bitlen (\<lceil>1 / x\<rceil> - 1))"

definition f64 :: "real \<Rightarrow> real" where
  "f64 x = (if x = 0 then 0
            else let e = max (exponent \<bar>x\<bar>) (- 1022); ulp = 2 powi (e - 52)
                 in sgn x * (ulp * of_int (rne (\<bar>x\<bar> / ulp))))"

definition exact :: "real \<Rightarrow> real" where
  "exact x = x"

subsection \<open>Cleaning and tokenizing a message\<close>

text \<open>
  In \<open>classify\<close>: \<^verbatim>\<open>re.sub('\W', ' ', message).lower().split()\<close>; on the training table the
  same three steps, one cell each: \<^verbatim>\<open>.str.replace('\W', ' ')\<close>, \<^verbatim>\<open>.str.lower()\<close>,
  \<^verbatim>\<open>.str.split()\<close>.
\<close>

definition word_code :: "nat \<Rightarrow> bool" where
  \<comment> \<open>the code points \<^verbatim>\<open>\w\<close> matches: \<open>0-9\<close>, \<open>A-Z\<close>, \<open>_\<close>, \<open>a-z\<close> and the letters and numbers of
      Latin-1\<close>
  "word_code n =
     ((48 \<le> n \<and> n \<le> 57) \<or> (65 \<le> n \<and> n \<le> 90) \<or> n = 95 \<or> (97 \<le> n \<and> n \<le> 122) \<or>
      n = 170 \<or> n = 178 \<or> n = 179 \<or> n = 181 \<or> n = 185 \<or> n = 186 \<or>
      (188 \<le> n \<and> n \<le> 190) \<or> (192 \<le> n \<and> n \<le> 214) \<or> (216 \<le> n \<and> n \<le> 246) \<or> 248 \<le> n)"

definition is_word :: "char \<Rightarrow> bool" where
  "is_word c = word_code (of_char c)"

definition space_code :: "nat \<Rightarrow> bool" where
  \<comment> \<open>the code points of \<^verbatim>\<open>str.isspace\<close>, the separators of \<^verbatim>\<open>str.split()\<close>\<close>
  "space_code n = ((9 \<le> n \<and> n \<le> 13) \<or> (28 \<le> n \<and> n \<le> 32) \<or> n = 133 \<or> n = 160)"

definition is_space :: "char \<Rightarrow> bool" where
  "is_space c = space_code (of_char c)"

definition lower_code :: "nat \<Rightarrow> nat" where
  \<comment> \<open>\<^verbatim>\<open>str.lower\<close> on a code point: \<open>A-Z\<close> and the capital letters of Latin-1 move up by 32\<close>
  "lower_code n = (if (65 \<le> n \<and> n \<le> 90) \<or> (192 \<le> n \<and> n \<le> 222 \<and> n \<noteq> 215) then n + 32 else n)"

definition lower_char :: "char \<Rightarrow> char" where
  "lower_char c = char_of (lower_code (of_char c))"

definition sub_W :: "string \<Rightarrow> string" where
  \<comment> \<open>\<^verbatim>\<open>re.sub('\W', ' ', message)\<close>: each character that is not a word character becomes a space\<close>
  "sub_W message = map (\<lambda>c. if is_word c then c else CHR '' '') message"

definition lower :: "string \<Rightarrow> string" where
  "lower s = map lower_char s"

fun split_from :: "string \<Rightarrow> string \<Rightarrow> string list" where
  \<comment> \<open>\<^verbatim>\<open>str.split()\<close> with the word read so far: runs of whitespace separate, no empty word results\<close>
  "split_from cur [] = (if cur = [] then [] else [cur])"
| "split_from cur (c # cs) =
     (if is_space c then (if cur = [] then split_from [] cs else cur # split_from [] cs)
      else split_from (cur @ [c]) cs)"

definition split :: "string \<Rightarrow> string list" where
  "split s = split_from [] s"

definition clean :: "string \<Rightarrow> string list" where
  "clean message = split (lower (sub_W message))"

text \<open>
  The tokenizer as the specification words it, for comparison with \<open>clean\<close>: a maximal run of
  characters that are not word characters becomes one space (the flag says that the run has
  begun), then lowercase, then split on whitespace.
\<close>

fun sub_runs :: "bool \<Rightarrow> string \<Rightarrow> string" where
  "sub_runs in_run [] = []"
| "sub_runs in_run (c # cs) =
     (if is_word c then c # sub_runs False cs
      else if in_run then sub_runs True cs
      else CHR '' '' # sub_runs True cs)"

definition tokenize_spec :: "string \<Rightarrow> string list" where
  "tokenize_spec message = split (lower (sub_runs False message))"

subsection \<open>The training table\<close>

text \<open>
  \<open>msgs_train\<close> is a table with the columns \<open>Label\<close> and \<open>SMS\<close>; a row is a pair. After cleaning
  and splitting, the column \<open>SMS\<close> holds a list of words for each row.
\<close>

type_synonym row = "string \<times> string"

definition vocabulary_of :: "string list list \<Rightarrow> string list" where
  \<comment> \<open>\<^verbatim>\<open>list(set(vocabulary))\<close> over the words of all rows; the order Python gives is not fixed\<close>
  "vocabulary_of smss = remdups (concat smss)"

definition zero_counts :: "string list \<Rightarrow> nat \<Rightarrow> (string \<times> nat list) list" where
  \<comment> \<open>\<^verbatim>\<open>{word: [0] * len(msgs_train_cln['SMS']) for word in vocabulary}\<close>\<close>
  "zero_counts vocabulary n = map (\<lambda>word. (word, replicate n 0)) vocabulary"

fun count_sms :: "nat \<Rightarrow> string list \<Rightarrow> (string \<times> nat list) list \<Rightarrow> error + (string \<times> nat list) list" where
  \<comment> \<open>the inner loop: \<^verbatim>\<open>word_counts_per_sms[word][index] += 1\<close> for each word of one message\<close>
  "count_sms index [] d = Inr d"
| "count_sms index (word # sms) d =
     (case map_of d word of
        None \<Rightarrow> Inl (KeyError word)
      | Some col \<Rightarrow>
          if index < length col
          then count_sms index sms (AList.update word (col[index := col ! index + 1]) d)
          else Inl IndexError)"

fun count_all :: "nat \<Rightarrow> string list list \<Rightarrow> (string \<times> nat list) list \<Rightarrow> error + (string \<times> nat list) list" where
  \<comment> \<open>the outer loop over \<^verbatim>\<open>enumerate(msgs_train_cln['SMS'])\<close>\<close>
  "count_all index [] d = Inr d"
| "count_all index (sms # rest) d =
     (case count_sms index sms d of Inl e \<Rightarrow> Inl e | Inr d' \<Rightarrow> count_all (Suc index) rest d')"

definition word_counts_per_sms :: "string list \<Rightarrow> string list list \<Rightarrow> error + (string \<times> nat list) list" where
  "word_counts_per_sms vocabulary smss = count_all 0 smss (zero_counts vocabulary (length smss))"

text \<open>
  \<open>final_training\<close>: the columns \<open>Label\<close> and \<open>SMS\<close> beside one column of counts for each word
  of the vocabulary. A word is lowercase, so no word column is named \<open>Label\<close> or \<open>SMS\<close>.
\<close>

record frame =
  Label :: "string list"
  SMS :: "string list list"
  word_count_df :: "(string \<times> nat list) list"

definition final_training_of :: "row list \<Rightarrow> error + frame" where
  "final_training_of msgs_train =
     (let smss = map (\<lambda>r. clean (snd r)) msgs_train;
          vocabulary = vocabulary_of smss
      in case word_counts_per_sms vocabulary smss of
           Inl e \<Rightarrow> Inl e
         | Inr d \<Rightarrow> Inr \<lparr>Label = map fst msgs_train, SMS = smss, word_count_df = d\<rparr>)"

subsection \<open>Priors\<close>

definition value_counts_normalize :: "(real \<Rightarrow> real) \<Rightarrow> string list \<Rightarrow> (string \<times> real) list" where
  \<comment> \<open>\<^verbatim>\<open>value_counts(normalize = True)\<close>: one entry for each label that occurs, its count divided
      by the number of rows\<close>
  "value_counts_normalize rnd labels =
     map (\<lambda>l. (l, rnd (real (count_list labels l) / real (length labels)))) (remdups labels)"

definition getitem :: "(string \<times> 'a) list \<Rightarrow> string \<Rightarrow> error + 'a" where
  \<comment> \<open>\<^verbatim>\<open>d[key]\<close>\<close>
  "getitem d key = (case map_of d key of None \<Rightarrow> Inl (KeyError key) | Some v \<Rightarrow> Inr v)"

subsection \<open>Likelihoods\<close>

definition keep :: "bool list \<Rightarrow> 'a list \<Rightarrow> 'a list" where
  "keep bs xs = map snd (filter fst (zip bs xs))"

definition select_rows :: "string \<Rightarrow> frame \<Rightarrow> frame" where
  \<comment> \<open>\<^verbatim>\<open>final_training[final_training['Label'] == label]\<close>\<close>
  "select_rows label df =
     (let is_label = map (\<lambda>l. l = label) (Label df)
      in \<lparr>Label = keep is_label (Label df), SMS = keep is_label (SMS df),
          word_count_df = map (\<lambda>(word, col). (word, keep is_label col)) (word_count_df df)\<rparr>)"

definition n_words :: "frame \<Rightarrow> nat" where
  \<comment> \<open>\<^verbatim>\<open>train['SMS'].apply(len).sum()\<close>\<close>
  "n_words train = sum_list (map length (SMS train))"

definition column_sum :: "frame \<Rightarrow> string \<Rightarrow> error + nat" where
  \<comment> \<open>\<^verbatim>\<open>train[word].sum()\<close>\<close>
  "column_sum train word =
     (case getitem (word_count_df train) word of Inl e \<Rightarrow> Inl e | Inr col \<Rightarrow> Inr (sum_list col))"

definition p_given ::
  "(real \<Rightarrow> real) \<Rightarrow> real \<Rightarrow> nat \<Rightarrow> frame \<Rightarrow> nat \<Rightarrow> string \<Rightarrow> error + real" where
  \<comment> \<open>\<^verbatim>\<open>(train[word].sum() + alpha) / (n + alpha * len(vocabulary))\<close>: numerator and denominator
      are sums of integers (\<open>alpha\<close> is the int 1), the division is the float operation, and it
      does not raise\<close>
  "p_given rnd alpha len_vocabulary train n word =
     (case column_sum train word of
        Inl e \<Rightarrow> Inl e
      | Inr k \<Rightarrow> Inr (rnd ((real k + alpha) / (real n + alpha * real len_vocabulary))))"

fun likelihoods ::
  "(real \<Rightarrow> real) \<Rightarrow> real \<Rightarrow> nat \<Rightarrow> frame \<Rightarrow> nat \<Rightarrow> frame \<Rightarrow> nat \<Rightarrow> string list \<Rightarrow>
   (string \<times> real) list \<times> (string \<times> real) list \<Rightarrow>
   error option \<times> (string \<times> real) list \<times> (string \<times> real) list" where
  \<comment> \<open>the loop \<^verbatim>\<open>for word in vocabulary\<close> that fills the two dictionaries in place: it returns
      the exception that stopped it, if any, and the dictionaries as they are then\<close>
  "likelihoods rnd alpha len_vocabulary train_spam n_spam train_ham n_ham [] tables = (None, tables)"
| "likelihoods rnd alpha len_vocabulary train_spam n_spam train_ham n_ham (word # vocabulary)
     (p_given_spam, p_given_ham) =
     (case p_given rnd alpha len_vocabulary train_spam n_spam word of
        Inl e \<Rightarrow> (Some e, (p_given_spam, p_given_ham))
      | Inr ps \<Rightarrow>
         (case p_given rnd alpha len_vocabulary train_ham n_ham word of
            Inl e \<Rightarrow> (Some e, (AList.update word ps p_given_spam, p_given_ham))
          | Inr ph \<Rightarrow>
              likelihoods rnd alpha len_vocabulary train_spam n_spam train_ham n_ham vocabulary
                (AList.update word ps p_given_spam, AList.update word ph p_given_ham)))"

subsection \<open>Training\<close>

text \<open>What training leaves behind for \<open>classify\<close>.\<close>

record model =
  p_spam :: real
  p_ham :: real
  p_given_spam :: "(string \<times> real) list"
  p_given_ham :: "(string \<times> real) list"

definition train :: "(real \<Rightarrow> real) \<Rightarrow> real \<Rightarrow> row list \<Rightarrow> error + model" where
  \<comment> \<open>the cells from cleaning to the likelihoods, in the notebook's order, as a function of
      \<open>alpha\<close> and \<open>msgs_train\<close>: the four values when no cell raises\<close>
  "train rnd alpha msgs_train =
     (case final_training_of msgs_train of
        Inl e \<Rightarrow> Inl e
      | Inr final_training \<Rightarrow>
         (let vocabulary = vocabulary_of (SMS final_training);
              proportions = value_counts_normalize rnd (Label final_training)
          in case getitem proportions ''spam'' of
               Inl e \<Rightarrow> Inl e
             | Inr ps \<Rightarrow>
                (case getitem proportions ''ham'' of
                   Inl e \<Rightarrow> Inl e
                 | Inr ph \<Rightarrow>
                    (let train_spam = select_rows ''spam'' final_training;
                         n_spam = n_words train_spam;
                         train_ham = select_rows ''ham'' final_training;
                         n_ham = n_words train_ham
                     in case likelihoods rnd alpha (length vocabulary) train_spam n_spam train_ham n_ham
                               vocabulary ([], []) of
                          (Some e, tables) \<Rightarrow> Inl e
                        | (None, (pgs, pgh)) \<Rightarrow>
                            Inr \<lparr>p_spam = ps, p_ham = ph, p_given_spam = pgs, p_given_ham = pgh\<rparr>))))"

definition alpha :: real where
  \<comment> \<open>\<^verbatim>\<open>alpha = 1\<close>, the literal of the notebook: training has no input but the rows\<close>
  "alpha = 1"

text \<open>
  The notebook itself: the cells run in order and assign the globals one after the other.
  The first exception stops the run, and what was assigned before stays assigned. Of the
  namespace, the four names that \<open>classify\<close> reads are kept; \<open>None\<close> is a name that is not
  bound. In the last cell both dictionaries are bound (empty) before the loop fills them.
\<close>

record namespace =
  name_p_spam :: "real option"
  name_p_ham :: "real option"
  name_p_given_spam :: "(string \<times> real) list option"
  name_p_given_ham :: "(string \<times> real) list option"

definition unbound :: namespace where
  "unbound = \<lparr>name_p_spam = None, name_p_ham = None, name_p_given_spam = None, name_p_given_ham = None\<rparr>"

definition notebook :: "(real \<Rightarrow> real) \<Rightarrow> row list \<Rightarrow> error option \<times> namespace" where
  "notebook rnd msgs_train =
     (case final_training_of msgs_train of
        Inl e \<Rightarrow> (Some e, unbound)
      | Inr final_training \<Rightarrow>
         (let vocabulary = vocabulary_of (SMS final_training);
              proportions = value_counts_normalize rnd (Label final_training)
          in case getitem proportions ''spam'' of
               Inl e \<Rightarrow> (Some e, unbound)
             | Inr ps \<Rightarrow>
                (case getitem proportions ''ham'' of
                   Inl e \<Rightarrow> (Some e, unbound\<lparr>name_p_spam := Some ps\<rparr>)
                 | Inr ph \<Rightarrow>
                    (let train_spam = select_rows ''spam'' final_training;
                         n_spam = n_words train_spam;
                         train_ham = select_rows ''ham'' final_training;
                         n_ham = n_words train_ham
                     in case likelihoods rnd alpha (length vocabulary) train_spam n_spam train_ham n_ham
                               vocabulary ([], []) of
                          (raised, (pgs, pgh)) \<Rightarrow>
                            (raised,
                             \<lparr>name_p_spam = Some ps, name_p_ham = Some ph,
                              name_p_given_spam = Some pgs, name_p_given_ham = Some pgh\<rparr>)))))"

subsection \<open>Classification\<close>

fun posteriors :: "(real \<Rightarrow> real) \<Rightarrow> model \<Rightarrow> string list \<Rightarrow> real \<times> real \<Rightarrow> real \<times> real" where
  \<comment> \<open>the loop \<^verbatim>\<open>for word in message\<close>, one float multiplication for each \<^verbatim>\<open>*=\<close>; the pair is
      (spam, ham)\<close>
  "posteriors rnd m [] acc = acc"
| "posteriors rnd m (word # message) (p_spam_given_message, p_ham_given_message) =
     posteriors rnd m message
       (case map_of (p_given_spam m) word of
          Some p \<Rightarrow> rnd (p_spam_given_message * p)
        | None \<Rightarrow> p_spam_given_message,
        case map_of (p_given_ham m) word of
          Some p \<Rightarrow> rnd (p_ham_given_message * p)
        | None \<Rightarrow> p_ham_given_message)"

definition compare_posteriors :: "real \<times> real \<Rightarrow> string" where
  "compare_posteriors acc =
     (case acc of (p_spam_given_message, p_ham_given_message) \<Rightarrow>
        if p_ham_given_message > p_spam_given_message then ''ham''
        else if p_ham_given_message < p_spam_given_message then ''spam''
        else ''unclassified'')"

definition classify :: "(real \<Rightarrow> real) \<Rightarrow> model \<Rightarrow> string \<Rightarrow> string" where
  "classify rnd m message =
     compare_posteriors (posteriors rnd m (clean message) (p_spam m, p_ham m))"

subsection \<open>The quantities of the specification\<close>

text \<open>
  The words of the specification for what training computes, stated on the rows themselves:
  the messages of a category, the vocabulary, the number of occurrences of a word in a category
  and the number of words of a category. The theorems below compare them with what the cells
  compute.
\<close>

definition messages_of :: "string \<Rightarrow> row list \<Rightarrow> string list list" where
  "messages_of c msgs_train = map (\<lambda>r. clean (snd r)) (filter (\<lambda>r. fst r = c) msgs_train)"

definition vocabulary :: "row list \<Rightarrow> string list" where
  "vocabulary msgs_train = vocabulary_of (map (\<lambda>r. clean (snd r)) msgs_train)"

definition word_counts :: "string \<Rightarrow> row list \<Rightarrow> string \<Rightarrow> nat" where
  "word_counts c msgs_train w = sum_list (map (\<lambda>sms. count_list sms w) (messages_of c msgs_train))"

definition total_word_count :: "string \<Rightarrow> row list \<Rightarrow> nat" where
  "total_word_count c msgs_train = sum_list (map length (messages_of c msgs_train))"

definition likelihood :: "real \<Rightarrow> string \<Rightarrow> row list \<Rightarrow> string \<Rightarrow> real" where
  "likelihood a c msgs_train w =
     (real (word_counts c msgs_train w) + a) /
     (real (total_word_count c msgs_train) + a * real (card (set (vocabulary msgs_train))))"

definition prior :: "string \<Rightarrow> row list \<Rightarrow> real" where
  "prior c msgs_train = real (length (filter (\<lambda>r. fst r = c) msgs_train)) / real (length msgs_train)"

definition score :: "(real \<Rightarrow> real) \<Rightarrow> real \<Rightarrow> (string \<times> real) list \<Rightarrow> string list \<Rightarrow> real" where
  \<comment> \<open>the accumulated score: the prior times the conditional probabilities of the recognized
      tokens, one after the other, each product rounded\<close>
  "score rnd p table recognized = foldl (\<lambda>s w. rnd (s * the (map_of table w))) p recognized"



subsection \<open>Small corpora\<close>

text \<open>Three short messages, and what the notebook computes from them.\<close>

definition corpus :: "row list" where
  "corpus =
     [(''ham'', ''Ok lar... see u''),
      (''ham'', ''U free now?''),
      (''spam'', ''FREE entry, win a Cup!'')]"

definition corpus_model :: "(real \<Rightarrow> real) \<Rightarrow> model" where
  "corpus_model rnd =
     \<lparr>p_spam = rnd (1 / 3), p_ham = rnd (2 / 3),
      p_given_spam =
        [(''ok'', rnd (1 / 15)), (''lar'', rnd (1 / 15)), (''see'', rnd (1 / 15)),
         (''u'', rnd (1 / 15)), (''now'', rnd (1 / 15)), (''free'', rnd (2 / 15)),
         (''entry'', rnd (2 / 15)), (''win'', rnd (2 / 15)), (''a'', rnd (2 / 15)),
         (''cup'', rnd (2 / 15))],
      p_given_ham =
        [(''ok'', rnd (2 / 17)), (''lar'', rnd (2 / 17)), (''see'', rnd (2 / 17)),
         (''u'', rnd (3 / 17)), (''now'', rnd (2 / 17)), (''free'', rnd (2 / 17)),
         (''entry'', rnd (1 / 17)), (''win'', rnd (1 / 17)), (''a'', rnd (1 / 17)),
         (''cup'', rnd (1 / 17))]\<rparr>"

text \<open>Two messages, one of each label: the priors are equal.\<close>

definition tie_corpus :: "row list" where
  "tie_corpus = [(''ham'', ''a a b''), (''spam'', ''b b a'')]"

definition tie_model :: "(real \<Rightarrow> real) \<Rightarrow> model" where
  "tie_model rnd =
     \<lparr>p_spam = rnd (1 / 2), p_ham = rnd (1 / 2),
      p_given_spam = [(''b'', rnd (3 / 5)), (''a'', rnd (2 / 5))],
      p_given_ham = [(''b'', rnd (2 / 5)), (''a'', rnd (3 / 5))]\<rparr>"


section \<open>Properties\<close>

subsection \<open>The tokenizer\<close>

lemma space_not_word: "is_space c \<Longrightarrow> \<not> is_word c"
  by (auto simp: is_space_def is_word_def space_code_def word_code_def)

lemma lower_char_space: "is_space (lower_char CHR '' '')"
  by (simp add: is_space_def lower_char_def space_code_def lower_code_def)

lemma split_from_runs:
  "split_from cur (lower (sub_W s)) = split_from cur (lower (sub_runs False s))"
  "split_from [] (lower (sub_W s)) = split_from [] (lower (sub_runs True s))"
  by (induction s arbitrary: cur) (simp_all add: lower_def sub_W_def lower_char_space)

lemma split_from_spaces:
  "\<forall>c\<in>set s. \<not> is_word c \<Longrightarrow> split_from [] (lower (sub_W s)) = []"
  by (induction s) (simp_all add: lower_def sub_W_def lower_char_space)

text \<open>
  A token is made of lowercased characters, so it is neither \<open>Label\<close> nor \<open>SMS\<close>: the word
  columns of \<open>final_training\<close> never clash with its first two columns.
\<close>

lemma split_from_chars: "w \<in> set (split_from cur s) \<Longrightarrow> set w \<subseteq> set cur \<union> set s"
proof (induction s arbitrary: cur)
  case Nil
  then show ?case by (simp split: if_splits)
next
  case (Cons c s)
  then show ?case by (fastforce split: if_splits)
qed

lemma of_char_less_256: "(of_char c :: nat) < 256"
proof -
  have "(of_char c :: nat) mod 256 = of_char c" by (rule of_char_mod_256)
  moreover have "(of_char c :: nat) mod 256 < 256" by simp
  ultimately show ?thesis by simp
qed

lemma lower_char_not_capital:
  "(of_char (lower_char c) :: nat) \<noteq> 76 \<and> (of_char (lower_char c) :: nat) \<noteq> 83"
  using of_char_less_256 [of c] by (auto simp: lower_char_def lower_code_def)

lemma clean_not_column:
  assumes "w \<in> set (clean message)"
  shows "w \<noteq> ''Label'' \<and> w \<noteq> ''SMS''"
proof -
  have "set w \<subseteq> lower_char ` set (sub_W message)"
    using split_from_chars [of w "[]" "lower (sub_W message)"] assms
    by (simp add: clean_def split_def lower_def)
  then have "\<forall>c\<in>set w. (of_char c :: nat) \<noteq> 76 \<and> (of_char c :: nat) \<noteq> 83"
    using lower_char_not_capital by blast
  then show ?thesis by auto
qed

subsection \<open>The counting loops never raise and count occurrences\<close>

lemma count_sms_ok:
  assumes "set sms \<subseteq> dom (map_of d)"
    and "\<forall>w col. map_of d w = Some col \<longrightarrow> index < length col"
  shows "\<exists>d'. count_sms index sms d = Inr d' \<and>
           (\<forall>w. map_of d' w = map_option (\<lambda>col. col[index := col ! index + count_list sms w]) (map_of d w))"
  using assms
proof (induction sms arbitrary: d)
  case Nil
  show ?case by (simp add: option.map_ident)
next
  case (Cons word sms)
  from Cons.prems(1) obtain col where col: "map_of d word = Some col" by auto
  with Cons.prems(2) have len: "index < length col" by blast
  let ?d1 = "AList.update word (col[index := col ! index + 1]) d"
  have m1: "map_of ?d1 = (map_of d)(word \<mapsto> col[index := col ! index + 1])"
    by (rule update_conv')
  have "set sms \<subseteq> dom (map_of ?d1)"
    using Cons.prems(1) unfolding m1 by auto
  moreover have "\<forall>w c. map_of ?d1 w = Some c \<longrightarrow> index < length c"
    using Cons.prems(2) len unfolding m1 by auto
  ultimately obtain d' where d': "count_sms index sms ?d1 = Inr d'"
    "\<forall>w. map_of d' w = map_option (\<lambda>c. c[index := c ! index + count_list sms w]) (map_of ?d1 w)"
    using Cons.IH by blast
  have "count_sms index (word # sms) d = Inr d'"
    using col len d'(1) by simp
  moreover have "map_of d' w = map_option (\<lambda>c. c[index := c ! index + count_list (word # sms) w]) (map_of d w)" for w
    using d'(2) col len unfolding m1 by (cases "w = word") simp_all
  ultimately show ?case by blast
qed

lemma count_all_ok:
  assumes "\<forall>sms\<in>set rest. set sms \<subseteq> dom (map_of d)"
    and "\<forall>w col. map_of d w = Some col \<longrightarrow> index + length rest \<le> length col"
  shows "\<exists>d'. count_all index rest d = Inr d' \<and> dom (map_of d') = dom (map_of d) \<and>
           (\<forall>w col. map_of d w = Some col \<longrightarrow>
              (\<exists>col'. map_of d' w = Some col' \<and> length col' = length col \<and>
                 (\<forall>i<length col. col' ! i = col ! i +
                    (if index \<le> i \<and> i < index + length rest then count_list (rest ! (i - index)) w else 0))))"
  using assms
proof (induction rest arbitrary: index d)
  case Nil
  show ?case by simp
next
  case (Cons sms rest)
  have "set sms \<subseteq> dom (map_of d)" using Cons.prems(1) by simp
  moreover have "\<forall>w col. map_of d w = Some col \<longrightarrow> index < length col"
    using Cons.prems(2) by fastforce
  ultimately obtain d1 where d1: "count_sms index sms d = Inr d1"
    "\<And>w. map_of d1 w = map_option (\<lambda>col. col[index := col ! index + count_list sms w]) (map_of d w)"
    using count_sms_ok by blast
  have dom1: "dom (map_of d1) = dom (map_of d)"
    by (auto simp: d1(2) dom_def)
  have "\<forall>sms\<in>set rest. set sms \<subseteq> dom (map_of d1)"
    using Cons.prems(1) by (simp add: dom1)
  moreover have "\<forall>w col. map_of d1 w = Some col \<longrightarrow> Suc index + length rest \<le> length col"
    using Cons.prems(2) by (auto simp: d1(2))
  ultimately obtain d' where d': "count_all (Suc index) rest d1 = Inr d'"
    "dom (map_of d') = dom (map_of d1)"
    "\<And>w col. map_of d1 w = Some col \<Longrightarrow>
       \<exists>col'. map_of d' w = Some col' \<and> length col' = length col \<and>
         (\<forall>i<length col. col' ! i = col ! i +
            (if Suc index \<le> i \<and> i < Suc index + length rest then count_list (rest ! (i - Suc index)) w else 0))"
    using Cons.IH [of d1 "Suc index"] by blast
  have run: "count_all index (sms # rest) d = Inr d'"
    using d1(1) d'(1) by simp
  have "\<exists>col'. map_of d' w = Some col' \<and> length col' = length col \<and>
         (\<forall>i<length col. col' ! i = col ! i +
            (if index \<le> i \<and> i < index + length (sms # rest)
             then count_list ((sms # rest) ! (i - index)) w else 0))"
    if w: "map_of d w = Some col" for w col
  proof -
    let ?col1 = "col[index := col ! index + count_list sms w]"
    have "map_of d1 w = Some ?col1" using w by (simp add: d1(2))
    from d'(3) [OF this] obtain col' where col': "map_of d' w = Some col'"
      "length col' = length col"
      "\<forall>i<length col. col' ! i = ?col1 ! i +
            (if Suc index \<le> i \<and> i < Suc index + length rest then count_list (rest ! (i - Suc index)) w else 0)"
      by auto
    have "col' ! i = col ! i +
            (if index \<le> i \<and> i < index + length (sms # rest)
             then count_list ((sms # rest) ! (i - index)) w else 0)" if "i < length col" for i
      using col'(3) that by (cases "i = index") (auto simp: nth_Cons' Suc_diff_le)
    with col'(1,2) show ?thesis by blast
  qed
  with run d'(2) dom1 show ?case by blast
qed

lemma map_of_zero_counts:
  "map_of (zero_counts V n) w = (if w \<in> set V then Some (replicate n 0) else None)"
  by (simp add: zero_counts_def map_of_map_restrict restrict_map_def)

lemma word_counts_per_sms_ok:
  "\<exists>d. word_counts_per_sms (vocabulary_of smss) smss = Inr d \<and>
     (\<forall>w. map_of d w = (if w \<in> set (vocabulary_of smss)
                        then Some (map (\<lambda>sms. count_list sms w) smss) else None))"
proof -
  let ?V = "vocabulary_of smss"
  let ?d = "zero_counts ?V (length smss)"
  have dom0: "dom (map_of ?d) = set ?V"
    by (auto simp: map_of_zero_counts dom_def)
  have "set sms \<subseteq> set ?V" if "sms \<in> set smss" for sms
    using that by (auto simp: vocabulary_of_def)
  then have "\<forall>sms\<in>set smss. set sms \<subseteq> dom (map_of ?d)"
    unfolding dom0 by blast
  moreover have "\<forall>w col. map_of ?d w = Some col \<longrightarrow> 0 + length smss \<le> length col"
    by (auto simp: map_of_zero_counts split: if_splits)
  ultimately obtain d' where d': "count_all 0 smss ?d = Inr d'"
    "dom (map_of d') = dom (map_of ?d)"
    "\<And>w col. map_of ?d w = Some col \<Longrightarrow>
       \<exists>col'. map_of d' w = Some col' \<and> length col' = length col \<and>
         (\<forall>i<length col. col' ! i = col ! i +
            (if 0 \<le> i \<and> i < 0 + length smss then count_list (smss ! (i - 0)) w else 0))"
    using count_all_ok [of smss ?d 0] by blast
  have "map_of d' w = (if w \<in> set ?V then Some (map (\<lambda>sms. count_list sms w) smss) else None)" for w
  proof (cases "w \<in> set ?V")
    case True
    then have "map_of ?d w = Some (replicate (length smss) 0)"
      by (simp add: map_of_zero_counts)
    from d'(3) [OF this] obtain col' where col': "map_of d' w = Some col'"
      "length col' = length smss"
      "\<forall>i<length smss. col' ! i = count_list (smss ! i) w"
      by auto
    have "col' = map (\<lambda>sms. count_list sms w) smss"
      using col'(2,3) by (intro nth_equalityI) simp_all
    with col'(1) True show ?thesis by simp
  next
    case False
    then have "w \<notin> dom (map_of d')" by (simp add: d'(2) dom0)
    with False show ?thesis by (simp add: dom_def)
  qed
  with d'(1) show ?thesis by (auto simp: word_counts_per_sms_def)
qed

subsection \<open>Selecting the rows of a label\<close>

lemma keep_map:
  "keep (map (\<lambda>r. fst r = c) rows) (map f rows) = map f (filter (\<lambda>r. fst r = c) rows)"
  by (induction rows) (simp_all add: keep_def)

lemma keep_map_comp:
  "keep (map ((\<lambda>l. l = c) \<circ> fst) rows) (map f rows) = map f (filter (\<lambda>r. fst r = c) rows)"
  using keep_map [of c rows f] by (simp add: comp_def)

lemma final_training_of_ok:
  "\<exists>d. final_training_of rows =
          Inr \<lparr>Label = map fst rows, SMS = map (\<lambda>r. clean (snd r)) rows, word_count_df = d\<rparr> \<and>
        (\<forall>w. map_of d w = (if w \<in> set (vocabulary rows)
                           then Some (map (\<lambda>r. count_list (clean (snd r)) w) rows) else None))"
proof -
  obtain d where d: "word_counts_per_sms (vocabulary rows) (map (\<lambda>r. clean (snd r)) rows) = Inr d"
    "\<And>w. map_of d w = (if w \<in> set (vocabulary rows)
                        then Some (map (\<lambda>sms. count_list sms w) (map (\<lambda>r. clean (snd r)) rows)) else None)"
    using word_counts_per_sms_ok [of "map (\<lambda>r. clean (snd r)) rows"]
    unfolding vocabulary_def by blast
  have "final_training_of rows =
          Inr \<lparr>Label = map fst rows, SMS = map (\<lambda>r. clean (snd r)) rows, word_count_df = d\<rparr>"
    using d(1) by (simp add: final_training_of_def vocabulary_def)
  moreover have "map_of d w = (if w \<in> set (vocabulary rows)
                           then Some (map (\<lambda>r. count_list (clean (snd r)) w) rows) else None)" for w
    by (simp add: d(2) comp_def)
  ultimately show ?thesis by blast
qed

lemma map_of_map_values:
  "map_of (map (\<lambda>(k, v). (k, f v)) xs) k = map_option f (map_of xs k)"
  by (induction xs) auto

lemma select_rows_final:
  assumes "df = \<lparr>Label = map fst rows, SMS = map (\<lambda>r. clean (snd r)) rows, word_count_df = d\<rparr>"
    and "\<And>w. map_of d w = (if w \<in> set (vocabulary rows)
                           then Some (map (\<lambda>r. count_list (clean (snd r)) w) rows) else None)"
  shows "SMS (select_rows c df) = messages_of c rows"
    and "map_of (word_count_df (select_rows c df)) w =
           (if w \<in> set (vocabulary rows)
            then Some (map (\<lambda>sms. count_list sms w) (messages_of c rows)) else None)"
proof -
  show "SMS (select_rows c df) = messages_of c rows"
    by (simp add: assms(1) select_rows_def Let_def keep_map_comp messages_of_def)
  have "keep (map ((\<lambda>l. l = c) \<circ> fst) rows) (map (\<lambda>r. count_list (clean (snd r)) w) rows)
        = map (\<lambda>sms. count_list sms w) (messages_of c rows)"
    by (simp add: keep_map keep_map_comp messages_of_def comp_def)
  then show "map_of (word_count_df (select_rows c df)) w =
           (if w \<in> set (vocabulary rows)
            then Some (map (\<lambda>sms. count_list sms w) (messages_of c rows)) else None)"
    by (simp add: assms select_rows_def Let_def map_of_map_values)
qed

lemma map_of_value_counts:
  "map_of (value_counts_normalize rnd labels) l =
     (if l \<in> set labels then Some (rnd (real (count_list labels l) / real (length labels))) else None)"
  by (simp add: value_counts_normalize_def map_of_map_restrict restrict_map_def)

lemma likelihoods_ok:
  assumes "\<forall>w\<in>set vocab. map_of (word_count_df ts) w = Some (cs w) \<and> map_of (word_count_df th) w = Some (ch w)"
  shows "\<exists>pgs' pgh'. likelihoods rnd a nv ts ns th nh vocab (pgs, pgh) = (None, (pgs', pgh')) \<and>
           (\<forall>w. map_of pgs' w = (if w \<in> set vocab
                   then Some (rnd ((real (sum_list (cs w)) + a) / (real ns + a * real nv)))
                   else map_of pgs w)) \<and>
           (\<forall>w. map_of pgh' w = (if w \<in> set vocab
                   then Some (rnd ((real (sum_list (ch w)) + a) / (real nh + a * real nv)))
                   else map_of pgh w))"
  using assms
proof (induction vocab arbitrary: pgs pgh)
  case Nil
  show ?case by simp
next
  case (Cons word vocab)
  let ?ps = "rnd ((real (sum_list (cs word)) + a) / (real ns + a * real nv))"
  let ?ph = "rnd ((real (sum_list (ch word)) + a) / (real nh + a * real nv))"
  have s: "p_given rnd a nv ts ns word = Inr ?ps" and h: "p_given rnd a nv th nh word = Inr ?ph"
    using Cons.prems by (simp_all add: p_given_def column_sum_def getitem_def)
  have "\<forall>w\<in>set vocab. map_of (word_count_df ts) w = Some (cs w) \<and> map_of (word_count_df th) w = Some (ch w)"
    using Cons.prems by simp
  from Cons.IH [OF this, of "AList.update word ?ps pgs" "AList.update word ?ph pgh"]
  obtain pgs' pgh' where r:
    "likelihoods rnd a nv ts ns th nh vocab (AList.update word ?ps pgs, AList.update word ?ph pgh)
       = (None, (pgs', pgh'))"
    "\<And>w. map_of pgs' w = (if w \<in> set vocab
             then Some (rnd ((real (sum_list (cs w)) + a) / (real ns + a * real nv)))
             else map_of (AList.update word ?ps pgs) w)"
    "\<And>w. map_of pgh' w = (if w \<in> set vocab
             then Some (rnd ((real (sum_list (ch w)) + a) / (real nh + a * real nv)))
             else map_of (AList.update word ?ph pgh) w)"
    by blast
  have "likelihoods rnd a nv ts ns th nh (word # vocab) (pgs, pgh) = (None, (pgs', pgh'))"
    using s h r(1) by simp
  moreover have "map_of pgs' w = (if w \<in> set (word # vocab)
             then Some (rnd ((real (sum_list (cs w)) + a) / (real ns + a * real nv)))
             else map_of pgs w)" for w
    by (simp add: r(2) update_conv')
  moreover have "map_of pgh' w = (if w \<in> set (word # vocab)
             then Some (rnd ((real (sum_list (ch w)) + a) / (real nh + a * real nv)))
             else map_of pgh w)" for w
    by (simp add: r(3) update_conv')
  ultimately show ?case by blast
qed

subsection \<open>What training returns\<close>

lemma count_list_fst: "count_list (map fst rows) c = length (filter (\<lambda>r. fst r = c) rows)"
  by (induction rows) auto

lemma card_vocabulary: "card (set (vocabulary rows)) = length (vocabulary rows)"
proof -
  have "distinct (vocabulary rows)" by (simp add: vocabulary_def vocabulary_of_def)
  then show ?thesis by (rule distinct_card)
qed

lemma train_no_spam:
  assumes "''spam'' \<notin> fst ` set rows"
  shows "train rnd a rows = Inl (KeyError ''spam'')"
proof -
  obtain d where d: "final_training_of rows =
      Inr \<lparr>Label = map fst rows, SMS = map (\<lambda>r. clean (snd r)) rows, word_count_df = d\<rparr>"
    using final_training_of_ok by blast
  show ?thesis
    using assms by (simp add: train_def d Let_def getitem_def map_of_value_counts)
qed

lemma train_no_ham:
  assumes "''spam'' \<in> fst ` set rows" and "''ham'' \<notin> fst ` set rows"
  shows "train rnd a rows = Inl (KeyError ''ham'')"
proof -
  obtain d where d: "final_training_of rows =
      Inr \<lparr>Label = map fst rows, SMS = map (\<lambda>r. clean (snd r)) rows, word_count_df = d\<rparr>"
    using final_training_of_ok by blast
  show ?thesis
    using assms by (simp add: train_def d Let_def getitem_def map_of_value_counts)
qed

text \<open>
  With both labels present every cell runs to its end: \<open>train\<close> returns the four values and the
  notebook binds the four names to them.
\<close>

lemma cells_ok:
  assumes "''spam'' \<in> fst ` set rows" and "''ham'' \<in> fst ` set rows"
  shows "\<exists>pgs pgh.
           train rnd a rows =
             Inr \<lparr>p_spam = rnd (prior ''spam'' rows), p_ham = rnd (prior ''ham'' rows),
                  p_given_spam = pgs, p_given_ham = pgh\<rparr> \<and>
           (a = alpha \<longrightarrow> notebook rnd rows =
             (None, \<lparr>name_p_spam = Some (rnd (prior ''spam'' rows)),
                     name_p_ham = Some (rnd (prior ''ham'' rows)),
                     name_p_given_spam = Some pgs, name_p_given_ham = Some pgh\<rparr>)) \<and>
           (\<forall>w. map_of pgs w =
                  (if w \<in> set (vocabulary rows) then Some (rnd (likelihood a ''spam'' rows w)) else None)) \<and>
           (\<forall>w. map_of pgh w =
                  (if w \<in> set (vocabulary rows) then Some (rnd (likelihood a ''ham'' rows w)) else None))"
proof -
  obtain d where d: "final_training_of rows =
      Inr \<lparr>Label = map fst rows, SMS = map (\<lambda>r. clean (snd r)) rows, word_count_df = d\<rparr>"
    "\<And>w. map_of d w = (if w \<in> set (vocabulary rows)
                        then Some (map (\<lambda>r. count_list (clean (snd r)) w) rows) else None)"
    using final_training_of_ok by blast
  define df where "df = \<lparr>Label = map fst rows, SMS = map (\<lambda>r. clean (snd r)) rows, word_count_df = d\<rparr>"
  note sel = select_rows_final [OF df_def d(2)]
  let ?V = "vocabulary rows"
  let ?ts = "select_rows ''spam'' df" and ?th = "select_rows ''ham'' df"
  have cols: "\<forall>w\<in>set ?V. map_of (word_count_df ?ts) w = Some (map (\<lambda>sms. count_list sms w) (messages_of ''spam'' rows))
      \<and> map_of (word_count_df ?th) w = Some (map (\<lambda>sms. count_list sms w) (messages_of ''ham'' rows))"
    by (simp add: sel(2))
  from likelihoods_ok [OF cols, of rnd a "length ?V" "n_words ?ts" "n_words ?th" "[]" "[]"]
  obtain pgs pgh where l:
    "likelihoods rnd a (length ?V) ?ts (n_words ?ts) ?th (n_words ?th) ?V ([], []) = (None, (pgs, pgh))"
    "\<And>w. map_of pgs w = (if w \<in> set ?V
         then Some (rnd ((real (sum_list (map (\<lambda>sms. count_list sms w) (messages_of ''spam'' rows))) + a) /
                    (real (n_words ?ts) + a * real (length ?V)))) else None)"
    "\<And>w. map_of pgh w = (if w \<in> set ?V
         then Some (rnd ((real (sum_list (map (\<lambda>sms. count_list sms w) (messages_of ''ham'' rows))) + a) /
                    (real (n_words ?th) + a * real (length ?V)))) else None)"
    by auto
  have n: "n_words ?ts = total_word_count ''spam'' rows" "n_words ?th = total_word_count ''ham'' rows"
    by (simp_all add: n_words_def sel(1) total_word_count_def)
  have V: "vocabulary_of (SMS df) = ?V" by (simp add: df_def vocabulary_def)
  have lab: "Label df = map fst rows" by (simp add: df_def)
  have ps: "getitem (value_counts_normalize rnd (map fst rows)) ''spam'' = Inr (rnd (prior ''spam'' rows))"
    and ph: "getitem (value_counts_normalize rnd (map fst rows)) ''ham'' = Inr (rnd (prior ''ham'' rows))"
    using assms by (simp_all add: getitem_def map_of_value_counts prior_def count_list_fst)
  have "train rnd a rows = Inr \<lparr>p_spam = rnd (prior ''spam'' rows), p_ham = rnd (prior ''ham'' rows),
                             p_given_spam = pgs, p_given_ham = pgh\<rparr>"
    unfolding train_def d(1) df_def [symmetric]
    by (simp add: Let_def V lab ps ph l(1))
  moreover have "notebook rnd rows =
             (None, \<lparr>name_p_spam = Some (rnd (prior ''spam'' rows)),
                     name_p_ham = Some (rnd (prior ''ham'' rows)),
                     name_p_given_spam = Some pgs, name_p_given_ham = Some pgh\<rparr>)" if "a = alpha"
    using l(1) unfolding notebook_def d(1) df_def [symmetric] that
    by (simp add: Let_def V lab ps ph)
  moreover have "map_of pgs w = (if w \<in> set ?V then Some (rnd (likelihood a ''spam'' rows w)) else None)" for w
    by (simp add: l(2) n likelihood_def word_counts_def card_vocabulary)
  moreover have "map_of pgh w = (if w \<in> set ?V then Some (rnd (likelihood a ''ham'' rows w)) else None)" for w
    by (simp add: l(3) n likelihood_def word_counts_def card_vocabulary)
  ultimately show ?thesis by blast
qed

lemma train_ok:
  assumes "''spam'' \<in> fst ` set rows" and "''ham'' \<in> fst ` set rows"
  shows "\<exists>m. train rnd a rows = Inr m \<and>
           p_spam m = rnd (prior ''spam'' rows) \<and> p_ham m = rnd (prior ''ham'' rows) \<and>
           (\<forall>w. map_of (p_given_spam m) w =
                  (if w \<in> set (vocabulary rows) then Some (rnd (likelihood a ''spam'' rows w)) else None)) \<and>
           (\<forall>w. map_of (p_given_ham m) w =
                  (if w \<in> set (vocabulary rows) then Some (rnd (likelihood a ''ham'' rows w)) else None))"
  using cells_ok [OF assms, of rnd a] by auto

lemma train_Inr_labels:
  assumes "train rnd a rows = Inr m"
  shows "''spam'' \<in> fst ` set rows \<and> ''ham'' \<in> fst ` set rows"
  using assms train_no_spam [of rows rnd a] train_no_ham [of rows rnd a] by auto

lemma train_Inr:
  assumes "train rnd a rows = Inr m"
  shows "p_spam m = rnd (prior ''spam'' rows)" and "p_ham m = rnd (prior ''ham'' rows)"
    and "map_of (p_given_spam m) w =
           (if w \<in> set (vocabulary rows) then Some (rnd (likelihood a ''spam'' rows w)) else None)"
    and "map_of (p_given_ham m) w =
           (if w \<in> set (vocabulary rows) then Some (rnd (likelihood a ''ham'' rows w)) else None)"
  using assms train_Inr_labels [OF assms] train_ok [of rows rnd a] by auto

text \<open>Without a row of one of the two labels the notebook stops at the lookup of its prior.\<close>

lemma notebook_no_spam:
  assumes "''spam'' \<notin> fst ` set rows"
  shows "notebook rnd rows = (Some (KeyError ''spam''), unbound)"
proof -
  obtain d where d: "final_training_of rows =
      Inr \<lparr>Label = map fst rows, SMS = map (\<lambda>r. clean (snd r)) rows, word_count_df = d\<rparr>"
    using final_training_of_ok by blast
  show ?thesis
    using assms by (simp add: notebook_def d Let_def getitem_def map_of_value_counts)
qed

lemma notebook_no_ham:
  assumes "''spam'' \<in> fst ` set rows" and "''ham'' \<notin> fst ` set rows"
  shows "notebook rnd rows =
           (Some (KeyError ''ham''), unbound\<lparr>name_p_spam := Some (rnd (prior ''spam'' rows))\<rparr>)"
proof -
  obtain d where d: "final_training_of rows =
      Inr \<lparr>Label = map fst rows, SMS = map (\<lambda>r. clean (snd r)) rows, word_count_df = d\<rparr>"
    using final_training_of_ok by blast
  show ?thesis
    using assms
    by (simp add: notebook_def d Let_def getitem_def map_of_value_counts prior_def count_list_fst)
qed

subsection \<open>Counts over the vocabulary\<close>

lemma sum_counts_vocabulary:
  assumes "set (concat msgs) \<subseteq> set V" and "distinct V"
  shows "sum_list (map (\<lambda>w. sum_list (map (\<lambda>sms. count_list sms w) msgs)) V) = sum_list (map length msgs)"
proof -
  have "sum_list (map (\<lambda>w. sum_list (map (\<lambda>sms. count_list sms w) msgs)) V)
        = sum_list (map (count_list (concat msgs)) V)"
    by (induction V) (simp_all add: count_list_concat)
  also have "\<dots> = sum (count_list (concat msgs)) (set V)"
    using assms(2) by (simp add: sum_list_distinct_conv_sum_set)
  also have "\<dots> = length (concat msgs)"
    using assms(1) by (simp add: sum_count_set)
  also have "\<dots> = sum_list (map length msgs)"
    by (simp add: length_concat)
  finally show ?thesis .
qed

lemma messages_of_vocabulary: "set (concat (messages_of c rows)) \<subseteq> set (vocabulary rows)"
  by (auto simp: messages_of_def vocabulary_def vocabulary_of_def)

lemma distinct_vocabulary: "distinct (vocabulary rows)"
  by (simp add: vocabulary_def vocabulary_of_def)

subsection \<open>The loop of \<open>classify\<close>\<close>

lemma train_Inr_keys:
  assumes "train rnd a rows = Inr m"
  shows "(map_of (p_given_spam m) w \<noteq> None) = (w \<in> set (vocabulary rows))"
    and "(map_of (p_given_ham m) w \<noteq> None) = (w \<in> set (vocabulary rows))"
  using train_Inr(3,4) [OF assms, of w] by simp_all

lemma posteriors_skip:
  assumes "map_of (p_given_spam m) w = None" and "map_of (p_given_ham m) w = None"
  shows "posteriors rnd m (w # ws) acc = posteriors rnd m ws acc"
  using assms by (cases acc) simp

lemma posteriors_score:
  assumes "\<And>w. (map_of (p_given_spam m) w \<noteq> None) = (w \<in> V)"
    and "\<And>w. (map_of (p_given_ham m) w \<noteq> None) = (w \<in> V)"
  shows "posteriors rnd m ws (s, h) =
           (score rnd s (p_given_spam m) (filter (\<lambda>w. w \<in> V) ws),
            score rnd h (p_given_ham m) (filter (\<lambda>w. w \<in> V) ws))"
proof (induction ws arbitrary: s h)
  case Nil
  show ?case by (simp add: score_def)
next
  case (Cons w ws)
  show ?case
  proof (cases "w \<in> V")
    case True
    then obtain p q where "map_of (p_given_spam m) w = Some p" "map_of (p_given_ham m) w = Some q"
      using assms [of w] by auto
    with True show ?thesis by (simp add: Cons.IH score_def)
  next
    case False
    then have "map_of (p_given_spam m) w = None" "map_of (p_given_ham m) w = None"
      using assms [of w] by auto
    with False show ?thesis by (simp add: Cons.IH)
  qed
qed

lemma posteriors_filter:
  assumes "\<And>w. (map_of (p_given_spam m) w \<noteq> None) = (w \<in> V)"
    and "\<And>w. (map_of (p_given_ham m) w \<noteq> None) = (w \<in> V)"
  shows "posteriors rnd m (filter (\<lambda>w. w \<in> V) ws) acc = posteriors rnd m ws acc"
proof (cases acc)
  case (Pair s h)
  show ?thesis
    unfolding Pair posteriors_score [OF assms] by simp
qed

subsection \<open>The rounding \<open>f64\<close>\<close>

text \<open>\<open>exponent\<close> is the binary exponent: \<open>2^exponent x \<le> x < 2^(exponent x + 1)\<close>.\<close>

lemma powi_nonneg_eq: "0 \<le> k \<Longrightarrow> (2::real) powi k = 2 ^ nat k"
  by (simp add: power_int_def)

lemma powi_neg_eq: "0 \<le> k \<Longrightarrow> (2::real) powi (- k) = 1 / 2 ^ nat k"
  by (cases "k = 0") (simp_all add: power_int_def field_simps)

lemma exponent_lower:
  assumes "0 < x"
  shows "2 powi exponent x \<le> x"
proof (cases "1 \<le> x")
  case True
  define n where "n = \<lfloor>x\<rfloor>"
  have n: "0 < n" using True by (simp add: n_def)
  have b: "1 \<le> bitlen n" using n bitlen_eq_zero_iff [of n] bitlen_nonneg [of n] by linarith
  have "(2::int) ^ nat (bitlen n - 1) \<le> n" using bitlen_bounds [OF n] by simp
  then have "real_of_int (2 ^ nat (bitlen n - 1)) \<le> real_of_int n" by (simp only: of_int_le_iff)
  moreover have "real_of_int (2 ^ nat (bitlen n - 1)) = 2 ^ nat (bitlen n - 1)" by simp
  moreover have "real_of_int n \<le> x" by (simp add: n_def)
  ultimately have "(2::real) ^ nat (bitlen n - 1) \<le> x" by linarith
  then show ?thesis using True b by (simp add: exponent_def n_def powi_nonneg_eq)
next
  case False
  define c where "c = \<lceil>1 / x\<rceil>"
  have "1 < 1 / x" using False assms by simp
  then have c: "0 < c - 1" unfolding c_def by linarith
  have "c - 1 < 2 ^ nat (bitlen (c - 1))" using bitlen_bounds [OF c] by simp
  then have "c \<le> 2 ^ nat (bitlen (c - 1))" by simp
  then have "real_of_int c \<le> real_of_int (2 ^ nat (bitlen (c - 1)))" by (simp only: of_int_le_iff)
  also have "\<dots> = 2 ^ nat (bitlen (c - 1))" by simp
  finally have "real_of_int c \<le> 2 ^ nat (bitlen (c - 1))" .
  moreover have "1 / x \<le> real_of_int c" by (simp add: c_def)
  ultimately have "1 / x \<le> 2 ^ nat (bitlen (c - 1))" by linarith
  then have "1 / 2 ^ nat (bitlen (c - 1)) \<le> x"
    using assms by (simp add: field_simps)
  then show ?thesis using False bitlen_nonneg [of "c - 1"]
    by (simp add: exponent_def c_def powi_neg_eq)
qed

lemma exponent_upper:
  assumes "0 < x"
  shows "x < 2 powi (exponent x + 1)"
proof (cases "1 \<le> x")
  case True
  define n where "n = \<lfloor>x\<rfloor>"
  have n: "0 < n" using True by (simp add: n_def)
  have "n < 2 ^ nat (bitlen n)" using bitlen_bounds [OF n] by simp
  then have "n + 1 \<le> 2 ^ nat (bitlen n)" by simp
  then have "real_of_int (n + 1) \<le> real_of_int (2 ^ nat (bitlen n))" by (simp only: of_int_le_iff)
  also have "\<dots> = 2 ^ nat (bitlen n)" by simp
  finally have "real_of_int (n + 1) \<le> 2 ^ nat (bitlen n)" .
  moreover have "x < real_of_int (n + 1)" unfolding n_def by linarith
  ultimately have "x < 2 ^ nat (bitlen n)" by linarith
  then show ?thesis using True bitlen_nonneg [of n]
    by (simp add: exponent_def n_def powi_nonneg_eq)
next
  case False
  define c where "c = \<lceil>1 / x\<rceil>"
  have "1 < 1 / x" using False assms by simp
  then have c: "0 < c - 1" unfolding c_def by linarith
  have b: "1 \<le> bitlen (c - 1)"
    using c bitlen_eq_zero_iff [of "c - 1"] bitlen_nonneg [of "c - 1"] by linarith
  have "(2::int) ^ nat (bitlen (c - 1) - 1) \<le> c - 1" using bitlen_bounds [OF c] by simp
  then have "real_of_int (2 ^ nat (bitlen (c - 1) - 1)) \<le> real_of_int (c - 1)"
    by (simp only: of_int_le_iff)
  moreover have "real_of_int (2 ^ nat (bitlen (c - 1) - 1)) = 2 ^ nat (bitlen (c - 1) - 1)" by simp
  moreover have "real_of_int (c - 1) < 1 / x" unfolding c_def by linarith
  ultimately have "2 ^ nat (bitlen (c - 1) - 1) < 1 / x" by linarith
  then have "x < 1 / 2 ^ nat (bitlen (c - 1) - 1)"
    using assms by (simp add: field_simps)
  moreover have "(2::real) powi (- bitlen (c - 1) + 1) = 1 / 2 ^ nat (bitlen (c - 1) - 1)"
    using powi_neg_eq [of "bitlen (c - 1) - 1"] b by simp
  ultimately show ?thesis using False by (simp add: exponent_def c_def)
qed




lemma rne_ge_one:
  assumes "1 \<le> q"
  shows "1 \<le> rne q"
proof -
  have "1 \<le> \<lfloor>q\<rfloor>" using assms by linarith
  then show ?thesis by (simp add: rne_def Let_def)
qed






lemma f64_positive:
  assumes "2 powi (- 1074) \<le> x"
  shows "0 < f64 x"
proof -
  have "0 < (2::real) powi (- 1074)" by simp
  with assms have x: "0 < x" by linarith
  define e where "e = max (exponent \<bar>x\<bar>) (- 1022)"
  define u where "u = (2::real) powi (e - 52)"
  have u: "0 < u" by (simp add: u_def)
  have "u \<le> x"
  proof (cases "- 1022 \<le> exponent x")
    case True
    then have "e = exponent x" using x by (simp add: e_def)
    then have "u \<le> 2 powi exponent x" unfolding u_def by (intro power_int_increasing) simp_all
    also have "\<dots> \<le> x" by (rule exponent_lower [OF x])
    finally show ?thesis .
  next
    case False
    then have "e = - 1022" using x by (simp add: e_def)
    then show ?thesis using assms by (simp add: u_def)
  qed
  then have "1 \<le> x / u" using u by simp
  then have "1 \<le> rne (x / u)" by (rule rne_ge_one)
  then have "0 < u * real_of_int (rne (x / u))" using u by simp
  then show ?thesis using x by (simp add: f64_def Let_def u_def e_def)
qed

subsection \<open>The small corpora, evaluated\<close>

lemmas tokenizer_defs =
  clean_def split_def sub_W_def lower_def is_word_def word_code_def is_space_def space_code_def
  lower_char_def lower_code_def

lemmas cell_defs =
  train_def final_training_of_def word_counts_per_sms_def vocabulary_of_def zero_counts_def
  value_counts_normalize_def getitem_def select_rows_def keep_def n_words_def p_given_def
  column_sum_def alpha_def Let_def

lemma clean_corpus:
  "clean ''Ok lar... see u'' = [''ok'', ''lar'', ''see'', ''u'']"
  "clean ''U free now?'' = [''u'', ''free'', ''now'']"
  "clean ''FREE entry, win a Cup!'' = [''free'', ''entry'', ''win'', ''a'', ''cup'']"
  "clean ''a a b'' = [''a'', ''a'', ''b'']"
  "clean ''b b a'' = [''b'', ''b'', ''a'']"
  by (simp_all add: tokenizer_defs char_of_eq_iff)

lemma train_corpus: "train rnd alpha corpus = Inr (corpus_model rnd)"
  by (simp add: cell_defs corpus_def corpus_model_def clean_corpus)

lemma train_tie_corpus: "train rnd alpha tie_corpus = Inr (tie_model rnd)"
  by (simp add: cell_defs tie_corpus_def tie_model_def clean_corpus)

lemma vocabulary_corpus:
  "vocabulary corpus = [''ok'', ''lar'', ''see'', ''u'', ''now'', ''free'', ''entry'', ''win'', ''a'', ''cup'']"
  by (simp add: vocabulary_def vocabulary_of_def corpus_def clean_corpus)

lemma vocabulary_tie_corpus: "vocabulary tie_corpus = [''b'', ''a'']"
  by (simp add: vocabulary_def vocabulary_of_def tie_corpus_def clean_corpus)

lemma counts_corpus:
  "word_counts ''spam'' corpus ''free'' = 1" "word_counts ''ham'' corpus ''free'' = 1"
  "word_counts ''spam'' corpus ''ok'' = 0" "word_counts ''ham'' corpus ''u'' = 2"
  "total_word_count ''spam'' corpus = 5" "total_word_count ''ham'' corpus = 7"
  by (simp_all add: word_counts_def total_word_count_def messages_of_def corpus_def clean_corpus)

lemma corpus_model_sel:
  "p_spam (corpus_model rnd) = rnd (1 / 3)" "p_ham (corpus_model rnd) = rnd (2 / 3)"
  "map_of (p_given_spam (corpus_model rnd)) ''ok'' = Some (rnd (1 / 15))"
  "map_of (p_given_ham (corpus_model rnd)) ''ok'' = Some (rnd (2 / 17))"
  "map_of (p_given_spam (corpus_model rnd)) ''free'' = Some (rnd (2 / 15))"
  "map_of (p_given_ham (corpus_model rnd)) ''free'' = Some (rnd (2 / 17))"
  "map_of (p_given_spam (corpus_model rnd)) ''win'' = Some (rnd (2 / 15))"
  "map_of (p_given_ham (corpus_model rnd)) ''win'' = Some (rnd (1 / 17))"
  "map_of (p_given_spam (corpus_model rnd)) ''a'' = Some (rnd (2 / 15))"
  "map_of (p_given_ham (corpus_model rnd)) ''a'' = Some (rnd (1 / 17))"
  "map_of (p_given_spam (corpus_model rnd)) ''cup'' = Some (rnd (2 / 15))"
  "map_of (p_given_ham (corpus_model rnd)) ''cup'' = Some (rnd (1 / 17))"
  by (simp_all add: corpus_model_def)

lemma tie_model_sel:
  "p_spam (tie_model rnd) = rnd (1 / 2)" "p_ham (tie_model rnd) = rnd (1 / 2)"
  "map_of (p_given_spam (tie_model rnd)) ''a'' = Some (rnd (2 / 5))"
  "map_of (p_given_ham (tie_model rnd)) ''a'' = Some (rnd (3 / 5))"
  "map_of (p_given_spam (tie_model rnd)) ''b'' = Some (rnd (3 / 5))"
  "map_of (p_given_ham (tie_model rnd)) ''b'' = Some (rnd (2 / 5))"
  by (simp_all add: tie_model_def)

lemma clean_messages:
  "clean ''Win a FREE cup!!'' = [''win'', ''a'', ''free'', ''cup'']"
  "clean ''xyzzyqqq'' = [''xyzzyqqq'']"
  "clean ''a a b b'' = [''a'', ''a'', ''b'', ''b'']"
  "clean ''b b a a'' = [''b'', ''b'', ''a'', ''a'']"
  "clean ''a b'' = [''a'', ''b'']"
  "clean ''?!'' = []"
  by (simp_all add: tokenizer_defs char_of_eq_iff)

text \<open>The doubles of the two models, as fractions.\<close>

lemma f64_values:
  "f64 (1 / 3) = 6004799503160661 / 18014398509481984"
  "f64 (2 / 3) = 6004799503160661 / 9007199254740992"
  "f64 (2 / 15) = 4803839602528529 / 36028797018963968"
  "f64 (1 / 17) = 4238682002231055 / 72057594037927936"
  "f64 (1 / 2) = 1 / 2"
  "f64 (2 / 5) = 3602879701896397 / 9007199254740992"
  "f64 (3 / 5) = 5404319552844595 / 9007199254740992"
  "f64 1 = 1"
  by code_simp+

lemma alpha_pos: "0 < alpha"
  by (simp add: alpha_def)

lemma likelihood_pos:
  assumes "0 < a" and "w \<in> set (vocabulary rows)"
  shows "0 < likelihood a c rows w"
proof -
  have "0 < card (set (vocabulary rows))"
    using assms(2) by (auto simp: card_gt_0_iff)
  then have "0 < a * real (card (set (vocabulary rows)))"
    using assms(1) by simp
  then have "0 < real (total_word_count c rows) + a * real (card (set (vocabulary rows)))"
    by (simp add: add_nonneg_pos)
  moreover have "0 < real (word_counts c rows w) + a"
    using assms(1) by (simp add: add_nonneg_pos)
  ultimately show ?thesis by (simp add: likelihood_def)
qed

subsection \<open>A lower bound of the table entries\<close>

lemma likelihood_lower:
  assumes "0 < a" and "w \<in> set (vocabulary rows)"
  shows "a / (real (total_word_count ''spam'' rows + total_word_count ''ham'' rows) +
              a * real (card (set (vocabulary rows)))) \<le> likelihood a ''spam'' rows w"
    and "a / (real (total_word_count ''spam'' rows + total_word_count ''ham'' rows) +
              a * real (card (set (vocabulary rows)))) \<le> likelihood a ''ham'' rows w"
proof -
  have "0 < card (set (vocabulary rows))"
    using assms(2) by (auto simp: card_gt_0_iff)
  then have v: "0 < a * real (card (set (vocabulary rows)))"
    using assms(1) by simp
  have le: "a / (real (s + h) + a * real (card (set (vocabulary rows)))) \<le>
        (real k + a) / (real t + a * real (card (set (vocabulary rows))))"
    if "t \<le> s + h" for s h t k :: nat
  proof -
    have "0 < real t + a * real (card (set (vocabulary rows)))" using v by (simp add: add_nonneg_pos)
    moreover have "real t + a * real (card (set (vocabulary rows))) \<le>
        real (s + h) + a * real (card (set (vocabulary rows)))" using that by simp
    moreover have "a \<le> real k + a" by simp
    ultimately show ?thesis using assms(1) by (intro frac_le) simp_all
  qed
  show "a / (real (total_word_count ''spam'' rows + total_word_count ''ham'' rows) +
              a * real (card (set (vocabulary rows)))) \<le> likelihood a ''spam'' rows w"
    unfolding likelihood_def by (rule le) simp
  show "a / (real (total_word_count ''spam'' rows + total_word_count ''ham'' rows) +
              a * real (card (set (vocabulary rows)))) \<le> likelihood a ''ham'' rows w"
    unfolding likelihood_def by (rule le) simp
qed

subsection \<open>Rounded products depend on the order of the factors\<close>

text \<open>
  Products of the doubles of the corpus of two messages, evaluated: the same five factors in
  two orders give two doubles, the same three factors in two orders give one, and halving a
  double is exact.
\<close>

lemma order_decides:
  "f64 (f64 (f64 (f64 (f64 (1 / 2) * f64 (3 / 5)) * f64 (3 / 5)) * f64 (2 / 5)) * f64 (2 / 5))
   < f64 (f64 (f64 (f64 (f64 (1 / 2) * f64 (2 / 5)) * f64 (2 / 5)) * f64 (3 / 5)) * f64 (3 / 5))"
  by code_simp

lemma order_ties:
  "f64 (f64 (f64 (1 / 2) * f64 (2 / 5)) * f64 (3 / 5)) = f64 (f64 (f64 (1 / 2) * f64 (3 / 5)) * f64 (2 / 5))"
  by code_simp


subsection \<open>Products and sums of logarithms\<close>




subsection \<open>Underflow of the product\<close>














section \<open>The claims\<close>

text \<open>
  The theorems hold for every rounding \<open>rnd\<close> unless they say otherwise: for \<open>f64\<close>, the
  floats of the code, and for \<open>exact\<close>, the real numbers. Each is used below at \<open>f64\<close> on one of
  the small corpora.
\<close>

text \<open>
  Claim C8. For each category, training computes the prior as the number of training messages
  of that category divided by the number of all training messages: the plain share, with no
  smoothing term in numerator or denominator. The division is one float division, so the
  stored prior is the share rounded once; with \<open>rnd = exact\<close> it is the share itself.
\<close>

theorem prior_is_label_share:
  assumes "train rnd a msgs_train = Inr m"
  shows "p_spam m = rnd (real (length (filter (\<lambda>r. fst r = ''spam'') msgs_train)) / real (length msgs_train)) \<and>
         p_ham m = rnd (real (length (filter (\<lambda>r. fst r = ''ham'') msgs_train)) / real (length msgs_train))"
  using train_Inr(1,2) [OF assms] by (simp add: prior_def)

theorem prior_is_label_share_witness:
  "train f64 alpha corpus = Inr (corpus_model f64) \<and>
   p_spam (corpus_model f64) =
     f64 (real (length (filter (\<lambda>r. fst r = ''spam'') corpus)) / real (length corpus)) \<and>
   p_ham (corpus_model f64) =
     f64 (real (length (filter (\<lambda>r. fst r = ''ham'') corpus)) / real (length corpus)) \<and>
   p_spam (corpus_model f64) = f64 (1 / 3) \<and> p_ham (corpus_model f64) = f64 (2 / 3) \<and>
   train exact alpha corpus = Inr (corpus_model exact) \<and>
   p_spam (corpus_model exact) = 1 / 3 \<and> p_ham (corpus_model exact) = 2 / 3"
proof -
  note p = prior_is_label_share [OF train_corpus [of f64]]
  note q = prior_is_label_share [OF train_corpus [of exact]]
  have "p_spam (corpus_model f64) = f64 (1 / 3)" "p_ham (corpus_model f64) = f64 (2 / 3)"
    using p by (simp_all add: corpus_def)
  moreover have "p_spam (corpus_model exact) = 1 / 3" "p_ham (corpus_model exact) = 2 / 3"
    using q by (simp_all add: corpus_def exact_def)
  ultimately show ?thesis using p train_corpus by blast
qed

text \<open>
  Claim C2. For each category \<open>c\<close> and each word \<open>w\<close> of the vocabulary, the table entry that
  training computes is \<open>(word_counts c w + alpha) / (total_word_count c + alpha * |Vocabulary|)\<close>,
  where \<open>word_counts c w\<close> counts the occurrences of \<open>w\<close> in all training messages of category
  \<open>c\<close> and \<open>total_word_count c\<close> is the sum of the lengths of their token sequences. Numerator
  and denominator are computed without rounding, and the quotient is rounded once; with
  \<open>rnd = exact\<close> the entry is the quotient itself.
\<close>

theorem likelihood_table_formula:
  assumes "0 < a" and "train rnd a msgs_train = Inr m" and "w \<in> set (vocabulary msgs_train)"
  shows "map_of (p_given_spam m) w =
           Some (rnd ((real (word_counts ''spam'' msgs_train w) + a) /
                      (real (total_word_count ''spam'' msgs_train) +
                       a * real (card (set (vocabulary msgs_train)))))) \<and>
         map_of (p_given_ham m) w =
           Some (rnd ((real (word_counts ''ham'' msgs_train w) + a) /
                      (real (total_word_count ''ham'' msgs_train) +
                       a * real (card (set (vocabulary msgs_train))))))"
  using train_Inr(3,4) [OF assms(2), of w] assms(3) by (simp add: likelihood_def)

theorem likelihood_table_formula_witness:
  "0 < alpha \<and> train f64 alpha corpus = Inr (corpus_model f64) \<and>
   ''free'' \<in> set (vocabulary corpus) \<and>
   map_of (p_given_spam (corpus_model f64)) ''free'' = Some (f64 ((1 + 1) / (5 + 1 * 10))) \<and>
   map_of (p_given_ham (corpus_model f64)) ''free'' = Some (f64 ((1 + 1) / (7 + 1 * 10))) \<and>
   train exact alpha corpus = Inr (corpus_model exact) \<and>
   map_of (p_given_spam (corpus_model exact)) ''free'' = Some ((1 + 1) / (5 + 1 * 10)) \<and>
   map_of (p_given_ham (corpus_model exact)) ''free'' = Some ((1 + 1) / (7 + 1 * 10))"
proof -
  have v: "''free'' \<in> set (vocabulary corpus)" by (simp add: vocabulary_corpus)
  have c: "card (set (vocabulary corpus)) = 10" by (simp add: card_vocabulary vocabulary_corpus)
  from likelihood_table_formula [OF alpha_pos train_corpus [of f64] v]
  have "map_of (p_given_spam (corpus_model f64)) ''free'' = Some (f64 ((1 + 1) / (5 + 1 * 10)))"
    and "map_of (p_given_ham (corpus_model f64)) ''free'' = Some (f64 ((1 + 1) / (7 + 1 * 10)))"
    by (simp_all add: counts_corpus c alpha_def)
  moreover from likelihood_table_formula [OF alpha_pos train_corpus [of exact] v]
  have "map_of (p_given_spam (corpus_model exact)) ''free'' = Some ((1 + 1) / (5 + 1 * 10))"
    and "map_of (p_given_ham (corpus_model exact)) ''free'' = Some ((1 + 1) / (7 + 1 * 10))"
    by (simp_all add: counts_corpus c alpha_def exact_def)
  ultimately show ?thesis using alpha_pos train_corpus v by blast
qed

text \<open>
  Claim C6. With a smoothing constant greater than zero, every word of the vocabulary has an
  entry strictly greater than zero in both tables, also a word that never occurs in the
  category (in the corpus above \<open>ok\<close> never occurs in a spam message). Over the real numbers
  (\<open>rnd = exact\<close>) this holds for every corpus. Every entry is the rounding of a number that is
  at least \<open>alpha / (total_word_count spam + total_word_count ham + alpha * |Vocabulary|)\<close>, so
  with a rounding it holds when no number from that bound upwards rounds to zero: for \<open>f64\<close>
  as long as the bound is at least \<open>2^(-1074)\<close> (lemma \<open>f64_positive\<close>), that is for every
  corpus that a machine can hold.
\<close>

theorem likelihood_positive:
  assumes "0 < a" and "train rnd a msgs_train = Inr m" and "w \<in> set (vocabulary msgs_train)"
    and "rnd = exact \<or>
         (\<forall>x. a / (real (total_word_count ''spam'' msgs_train + total_word_count ''ham'' msgs_train) +
                    a * real (card (set (vocabulary msgs_train)))) \<le> x \<longrightarrow> 0 < rnd x)"
  shows "(\<exists>p. map_of (p_given_spam m) w = Some p \<and> 0 < p) \<and>
         (\<exists>p. map_of (p_given_ham m) w = Some p \<and> 0 < p)"
proof -
  have "0 < card (set (vocabulary msgs_train))"
    using assms(3) by (auto simp: card_gt_0_iff)
  then have "0 < real (total_word_count ''spam'' msgs_train + total_word_count ''ham'' msgs_train) +
      a * real (card (set (vocabulary msgs_train)))"
    using assms(1) by (simp add: add_nonneg_pos)
  then have lo: "0 < a / (real (total_word_count ''spam'' msgs_train + total_word_count ''ham'' msgs_train) +
      a * real (card (set (vocabulary msgs_train))))"
    using assms(1) by simp
  have r: "0 < rnd x"
    if "a / (real (total_word_count ''spam'' msgs_train + total_word_count ''ham'' msgs_train) +
             a * real (card (set (vocabulary msgs_train)))) \<le> x" for x
    using assms(4) that lo by (auto simp: exact_def)
  show ?thesis
    using train_Inr(3,4) [OF assms(2), of w] assms(3)
      r [OF likelihood_lower(1) [OF assms(1,3)]] r [OF likelihood_lower(2) [OF assms(1,3)]]
    by simp
qed

theorem likelihood_positive_witness:
  "0 < alpha \<and> train f64 alpha corpus = Inr (corpus_model f64) \<and> ''ok'' \<in> set (vocabulary corpus) \<and>
   word_counts ''spam'' corpus ''ok'' = 0 \<and>
   (\<exists>p. map_of (p_given_spam (corpus_model f64)) ''ok'' = Some p \<and> 0 < p) \<and>
   (\<exists>p. map_of (p_given_ham (corpus_model f64)) ''ok'' = Some p \<and> 0 < p) \<and>
   train exact alpha corpus = Inr (corpus_model exact) \<and>
   (\<exists>p. map_of (p_given_spam (corpus_model exact)) ''ok'' = Some p \<and> 0 < p) \<and>
   (\<exists>p. map_of (p_given_ham (corpus_model exact)) ''ok'' = Some p \<and> 0 < p)"
proof -
  have v: "''ok'' \<in> set (vocabulary corpus)" by (simp add: vocabulary_corpus)
  have c: "card (set (vocabulary corpus)) = 10" by (simp add: card_vocabulary vocabulary_corpus)
  have f: "0 < f64 x"
    if "alpha / (real (total_word_count ''spam'' corpus + total_word_count ''ham'' corpus) +
                 alpha * real (card (set (vocabulary corpus)))) \<le> x" for x
  proof -
    have "(2::real) powi (- 1074) \<le> 2 powi (- 5)" by (rule power_int_increasing) simp_all
    also have "\<dots> \<le> 1 / 22" using powi_neg_eq [of 5] by simp
    also have "\<dots> \<le> x" using that by (simp add: counts_corpus c alpha_def)
    finally show ?thesis by (rule f64_positive)
  qed
  have "f64 = exact \<or>
      (\<forall>x. alpha / (real (total_word_count ''spam'' corpus + total_word_count ''ham'' corpus) +
                     alpha * real (card (set (vocabulary corpus)))) \<le> x \<longrightarrow> 0 < f64 x)"
    using f by blast
  from likelihood_positive [OF alpha_pos train_corpus [of f64] v this]
    likelihood_positive [OF alpha_pos train_corpus [of exact] v disjI1 [OF refl]]
    alpha_pos train_corpus v counts_corpus(3)
  show ?thesis by blast
qed

text \<open>
  Claim C10. After training the two tables have the same keys, the words of the vocabulary.
  So the two membership tests of \<open>classify\<close> agree on every word, and one step of its loop
  multiplies both posteriors (for a word of the vocabulary) or neither.
\<close>

theorem tables_share_keys:
  assumes "train rnd a msgs_train = Inr m"
  shows "fst ` set (p_given_spam m) = set (vocabulary msgs_train) \<and>
         fst ` set (p_given_ham m) = set (vocabulary msgs_train) \<and>
         (map_of (p_given_spam m) word \<noteq> None) = (map_of (p_given_ham m) word \<noteq> None) \<and>
         posteriors rnd m [word] (s, h) =
           (if word \<in> set (vocabulary msgs_train)
            then (rnd (s * the (map_of (p_given_spam m) word)),
                  rnd (h * the (map_of (p_given_ham m) word)))
            else (s, h))"
proof -
  note k = train_Inr_keys [OF assms]
  have "dom (map_of (p_given_spam m)) = set (vocabulary msgs_train)"
    and "dom (map_of (p_given_ham m)) = set (vocabulary msgs_train)"
    using k by (auto simp: dom_def)
  then have "fst ` set (p_given_spam m) = set (vocabulary msgs_train)"
    and "fst ` set (p_given_ham m) = set (vocabulary msgs_train)"
    by (simp_all add: dom_map_of_conv_image_fst)
  moreover have "(map_of (p_given_spam m) word \<noteq> None) = (map_of (p_given_ham m) word \<noteq> None)"
    by (simp only: k)
  moreover have "posteriors rnd m [word] (s, h) =
           (if word \<in> set (vocabulary msgs_train)
            then (rnd (s * the (map_of (p_given_spam m) word)),
                  rnd (h * the (map_of (p_given_ham m) word)))
            else (s, h))"
    using k [of word] by (auto split: option.splits)
  ultimately show ?thesis by blast
qed

theorem tables_share_keys_witness:
  "train f64 alpha corpus = Inr (corpus_model f64) \<and>
   fst ` set (p_given_spam (corpus_model f64)) = fst ` set (p_given_ham (corpus_model f64)) \<and>
   ''free'' \<in> set (vocabulary corpus) \<and>
   posteriors f64 (corpus_model f64) [''free''] (1, 1) = (f64 (f64 (2 / 15)), f64 (f64 (2 / 17))) \<and>
   ''lottery'' \<notin> set (vocabulary corpus) \<and>
   posteriors f64 (corpus_model f64) [''lottery''] (1, 1) = (1, 1) \<and>
   train exact alpha corpus = Inr (corpus_model exact) \<and>
   posteriors exact (corpus_model exact) [''free''] (1, 1) = (2 / 15, 2 / 17)"
proof -
  note t = tables_share_keys [OF train_corpus [of f64]]
  note u = tables_share_keys [OF train_corpus [of exact]]
  have "fst ` set (p_given_spam (corpus_model f64)) = fst ` set (p_given_ham (corpus_model f64))"
    using t [of "''free''" 1 1] by simp
  moreover have f: "''free'' \<in> set (vocabulary corpus)" and l: "''lottery'' \<notin> set (vocabulary corpus)"
    by (simp_all add: vocabulary_corpus)
  moreover have "posteriors f64 (corpus_model f64) [''free''] (1, 1) = (f64 (f64 (2 / 15)), f64 (f64 (2 / 17)))"
    using t [of "''free''" 1 1] f by (simp add: corpus_model_sel)
  moreover have "posteriors f64 (corpus_model f64) [''lottery''] (1, 1) = (1, 1)"
    using t [of "''lottery''" 1 1] l by simp
  moreover have "posteriors exact (corpus_model exact) [''free''] (1, 1) = (2 / 15, 2 / 17)"
    using u [of "''free''" 1 1] f by (simp add: corpus_model_sel exact_def)
  ultimately show ?thesis using train_corpus by blast
qed

text \<open>
  Claim C1. For a trained model and any message, \<open>classify\<close> answers \<open>ham\<close> when the ham score
  is strictly greater than the spam score, \<open>spam\<close> when the spam score is strictly greater, and
  \<open>unclassified\<close> when the two are equal. The score of a category is what the loop
  accumulates: it starts from the prior and multiplies by the table entry of each recognized
  token, in the order of the message, every product rounded. For a message with no
  recognized token the answer comes from comparing the two priors, \<open>unclassified\<close> when they
  are equal. With the floats of the code the order of the tokens matters: on the corpus of two
  messages \<open>a a b b\<close> is \<open>spam\<close>, \<open>b b a a\<close> is \<open>ham\<close> and \<open>a b\<close> is \<open>unclassified\<close>.
\<close>

theorem classify_compares_scores:
  assumes "0 < a" and "train rnd a msgs_train = Inr m"
  shows "classify rnd m message =
           (let recognized = filter (\<lambda>w. w \<in> set (vocabulary msgs_train)) (clean message);
                score_ham = score rnd (p_ham m) (p_given_ham m) recognized;
                score_spam = score rnd (p_spam m) (p_given_spam m) recognized
            in if score_ham > score_spam then ''ham''
               else if score_spam > score_ham then ''spam''
               else ''unclassified'') \<and>
         (filter (\<lambda>w. w \<in> set (vocabulary msgs_train)) (clean message) = [] \<longrightarrow>
            classify rnd m message =
              (if p_ham m > p_spam m then ''ham''
               else if p_spam m > p_ham m then ''spam''
               else ''unclassified''))"
proof -
  note k = train_Inr_keys [OF assms(2)]
  have p: "posteriors rnd m (clean message) (p_spam m, p_ham m) =
        (score rnd (p_spam m) (p_given_spam m) (filter (\<lambda>w. w \<in> set (vocabulary msgs_train)) (clean message)),
         score rnd (p_ham m) (p_given_ham m) (filter (\<lambda>w. w \<in> set (vocabulary msgs_train)) (clean message)))"
    by (rule posteriors_score) (rule k)+
  show ?thesis
    by (simp add: classify_def compare_posteriors_def p Let_def score_def)
qed

theorem classify_compares_scores_witness:
  "0 < alpha \<and> train f64 alpha corpus = Inr (corpus_model f64) \<and>
   train f64 alpha tie_corpus = Inr (tie_model f64) \<and>
   classify f64 (tie_model f64) ''a a b b'' = ''spam'' \<and>
   classify f64 (tie_model f64) ''b b a a'' = ''ham'' \<and>
   classify f64 (tie_model f64) ''a b'' = ''unclassified'' \<and>
   filter (\<lambda>w. w \<in> set (vocabulary corpus)) (clean ''?!'') = [] \<and>
   classify f64 (corpus_model f64) ''?!'' = ''ham'' \<and>
   filter (\<lambda>w. w \<in> set (vocabulary tie_corpus)) (clean ''?!'') = [] \<and>
   classify f64 (tie_model f64) ''?!'' = ''unclassified''"
proof -
  note c = classify_compares_scores [OF alpha_pos train_corpus [of f64]]
  note t = classify_compares_scores [OF alpha_pos train_tie_corpus [of f64]]
  have "classify f64 (tie_model f64) ''a a b b'' = ''spam''"
    using t [of "''a a b b''"] order_decides
    by (simp add: clean_messages vocabulary_tie_corpus score_def tie_model_sel)
  moreover have "classify f64 (tie_model f64) ''b b a a'' = ''ham''"
    using t [of "''b b a a''"] order_decides
    by (simp add: clean_messages vocabulary_tie_corpus score_def tie_model_sel)
  moreover have "classify f64 (tie_model f64) ''a b'' = ''unclassified''"
    using t [of "''a b''"] order_ties
    by (simp add: clean_messages vocabulary_tie_corpus score_def tie_model_sel)
  moreover have "filter (\<lambda>w. w \<in> set (vocabulary corpus)) (clean ''?!'') = []"
    and "filter (\<lambda>w. w \<in> set (vocabulary tie_corpus)) (clean ''?!'') = []"
    by (simp_all add: clean_messages)
  moreover have "classify f64 (corpus_model f64) ''?!'' = ''ham''"
    using c [of "''?!''"] by (simp add: clean_messages score_def corpus_model_sel f64_values)
  moreover have "classify f64 (tie_model f64) ''?!'' = ''unclassified''"
    using t [of "''?!''"] by (simp add: clean_messages score_def tie_model_sel)
  ultimately show ?thesis using alpha_pos train_corpus train_tie_corpus by blast
qed

text \<open>
  Claim C7. A token that is not in the vocabulary is skipped: it changes neither posterior, and
  a message classifies as the message without such tokens does. A message of one token that is
  not in the vocabulary is classified by comparing the priors alone, and the answer is
  \<open>unclassified\<close> exactly when the priors are equal.
\<close>

theorem unknown_tokens_skipped:
  assumes "train rnd a msgs_train = Inr m"
  shows "(word \<notin> set (vocabulary msgs_train) \<longrightarrow>
            posteriors rnd m (word # message) acc = posteriors rnd m message acc) \<and>
         posteriors rnd m (filter (\<lambda>w. w \<in> set (vocabulary msgs_train)) message) acc =
           posteriors rnd m message acc \<and>
         (clean text = [word] \<and> word \<notin> set (vocabulary msgs_train) \<longrightarrow>
            classify rnd m text =
              (if p_ham m > p_spam m then ''ham''
               else if p_ham m < p_spam m then ''spam''
               else ''unclassified'') \<and>
            (classify rnd m text = ''unclassified'') = (p_ham m = p_spam m))"
proof -
  note k = train_Inr_keys [OF assms]
  have skip: "posteriors rnd m (word # ws) acc' = posteriors rnd m ws acc'"
    if "word \<notin> set (vocabulary msgs_train)" for ws acc'
    using that k [of word] by (intro posteriors_skip) simp_all
  have "posteriors rnd m (filter (\<lambda>w. w \<in> set (vocabulary msgs_train)) message) acc =
           posteriors rnd m message acc"
    by (rule posteriors_filter) (rule k)+
  moreover have "classify rnd m text =
              (if p_ham m > p_spam m then ''ham''
               else if p_ham m < p_spam m then ''spam''
               else ''unclassified'') \<and>
            (classify rnd m text = ''unclassified'') = (p_ham m = p_spam m)"
    if "clean text = [word]" and "word \<notin> set (vocabulary msgs_train)"
    using that skip [of "[]" "(p_spam m, p_ham m)"]
    by (auto simp: classify_def compare_posteriors_def)
  ultimately show ?thesis using skip by blast
qed

theorem unknown_tokens_skipped_witness:
  "train f64 alpha corpus = Inr (corpus_model f64) \<and> train f64 alpha tie_corpus = Inr (tie_model f64) \<and>
   clean ''xyzzyqqq'' = [''xyzzyqqq''] \<and>
   ''xyzzyqqq'' \<notin> set (vocabulary corpus) \<and> ''xyzzyqqq'' \<notin> set (vocabulary tie_corpus) \<and>
   posteriors f64 (corpus_model f64) [''xyzzyqqq'', ''free''] (1, 1) =
     posteriors f64 (corpus_model f64) [''free''] (1, 1) \<and>
   classify f64 (corpus_model f64) ''xyzzyqqq'' = ''ham'' \<and>
   classify f64 (tie_model f64) ''xyzzyqqq'' = ''unclassified''"
proof -
  have c: "clean ''xyzzyqqq'' = [''xyzzyqqq'']" by (rule clean_messages)
  have v: "''xyzzyqqq'' \<notin> set (vocabulary corpus)" by (simp add: vocabulary_corpus)
  have w: "''xyzzyqqq'' \<notin> set (vocabulary tie_corpus)" by (simp add: vocabulary_tie_corpus)
  note u = unknown_tokens_skipped [OF train_corpus [of f64], of "''xyzzyqqq''" _ _ "''xyzzyqqq''"]
  note t = unknown_tokens_skipped [OF train_tie_corpus [of f64], of "''xyzzyqqq''" "[]" "(1, 1)" "''xyzzyqqq''"]
  have "posteriors f64 (corpus_model f64) [''xyzzyqqq'', ''free''] (1, 1) =
      posteriors f64 (corpus_model f64) [''free''] (1, 1)"
    using u [of "[''free'']" "(1, 1)"] v by blast
  moreover have "classify f64 (corpus_model f64) ''xyzzyqqq'' = ''ham''"
    using u [of "[]" "(1, 1)"] c v by (simp add: corpus_model_sel f64_values)
  moreover have "classify f64 (tie_model f64) ''xyzzyqqq'' = ''unclassified''"
    using t c w by (simp add: tie_model_sel)
  ultimately show ?thesis using train_corpus train_tie_corpus c v w by blast
qed

text \<open>
  Claim C9. For each category \<open>c\<close>, the counts that training holds for the words of the
  vocabulary (the sums of the word columns over the rows of \<open>c\<close>, which are the occurrences
  of each word in the messages of \<open>c\<close>) add up to the number of words of the category, the
  sum of the lengths of the token sequences of its messages. The loops that fill the columns
  never raise.
\<close>

theorem word_counts_sum_to_total:
  "\<exists>final_training. final_training_of msgs_train = Inr final_training \<and>
     (\<forall>w\<in>set (vocabulary msgs_train).
        column_sum (select_rows c final_training) w = Inr (word_counts c msgs_train w)) \<and>
     sum_list (map (word_counts c msgs_train) (vocabulary msgs_train)) =
       n_words (select_rows c final_training) \<and>
     n_words (select_rows c final_training) = total_word_count c msgs_train"
proof -
  obtain d where d: "final_training_of msgs_train =
      Inr \<lparr>Label = map fst msgs_train, SMS = map (\<lambda>r. clean (snd r)) msgs_train, word_count_df = d\<rparr>"
    "\<And>w. map_of d w = (if w \<in> set (vocabulary msgs_train)
                        then Some (map (\<lambda>r. count_list (clean (snd r)) w) msgs_train) else None)"
    using final_training_of_ok by blast
  define df where "df = \<lparr>Label = map fst msgs_train, SMS = map (\<lambda>r. clean (snd r)) msgs_train, word_count_df = d\<rparr>"
  note sel = select_rows_final [OF df_def d(2)]
  have n: "n_words (select_rows c df) = total_word_count c msgs_train"
    by (simp add: n_words_def sel(1) total_word_count_def)
  have col: "column_sum (select_rows c df) w = Inr (word_counts c msgs_train w)"
    if "w \<in> set (vocabulary msgs_train)" for w
    using that by (simp add: column_sum_def getitem_def sel(2) word_counts_def)
  have "sum_list (map (word_counts c msgs_train) (vocabulary msgs_train)) = total_word_count c msgs_train"
    unfolding word_counts_def total_word_count_def
    by (rule sum_counts_vocabulary) (rule messages_of_vocabulary distinct_vocabulary)+
  with n col d(1) show ?thesis unfolding df_def by auto
qed

theorem word_counts_sum_to_total_witness:
  "''free'' \<in> set (vocabulary corpus) \<and>
   (\<exists>final_training. final_training_of corpus = Inr final_training \<and>
      column_sum (select_rows ''spam'' final_training) ''free'' = Inr 1 \<and>
      n_words (select_rows ''spam'' final_training) = 5) \<and>
   sum_list (map (word_counts ''spam'' corpus) (vocabulary corpus)) = 5"
proof -
  have v: "''free'' \<in> set (vocabulary corpus)" by (simp add: vocabulary_corpus)
  from word_counts_sum_to_total [of corpus "''spam''"]
  obtain df where df: "final_training_of corpus = Inr df"
    "\<forall>w\<in>set (vocabulary corpus). column_sum (select_rows ''spam'' df) w = Inr (word_counts ''spam'' corpus w)"
    "sum_list (map (word_counts ''spam'' corpus) (vocabulary corpus)) = n_words (select_rows ''spam'' df)"
    "n_words (select_rows ''spam'' df) = total_word_count ''spam'' corpus"
    by blast
  have "column_sum (select_rows ''spam'' df) ''free'' = Inr 1"
    using df(2) v by (simp add: counts_corpus)
  moreover have "n_words (select_rows ''spam'' df) = 5"
    using df(4) by (simp add: counts_corpus)
  moreover have "sum_list (map (word_counts ''spam'' corpus) (vocabulary corpus)) = 5"
    using df(3,4) by (simp add: counts_corpus)
  ultimately show ?thesis using v df(1) by blast
qed

text \<open>
  Claim C5. Tokenization is a total function of the message (no error value in its type): it
  returns what replacing every maximal run of non-word characters by one space, lowercasing and
  splitting on whitespace returns. The empty message and a message of whitespace only have no
  tokens.
\<close>

theorem clean_refines_tokenize_spec:
  "clean message = tokenize_spec message \<and> clean [] = [] \<and>
   ((\<forall>c\<in>set message. is_space c) \<longrightarrow> clean message = [])"
proof -
  have "clean message = tokenize_spec message"
    by (simp add: clean_def tokenize_spec_def split_def split_from_runs(1))
  moreover have "clean [] = []"
    by (simp add: clean_def split_def lower_def sub_W_def)
  moreover have "clean message = []" if "\<forall>c\<in>set message. is_space c"
  proof -
    from that have "\<forall>c\<in>set message. \<not> is_word c" by (blast dest: space_not_word)
    then show ?thesis by (simp add: clean_def split_def split_from_spaces)
  qed
  ultimately show ?thesis by blast
qed

theorem clean_refines_tokenize_spec_witness:
  "list_all is_space [CHR '' '', CHR 0x09, CHR 0x0A, CHR '' ''] \<and>
   clean [CHR '' '', CHR 0x09, CHR 0x0A, CHR '' ''] = [] \<and>
   clean ''FREE entry, win a Cup!'' = tokenize_spec ''FREE entry, win a Cup!'' \<and>
   tokenize_spec ''FREE entry, win a Cup!'' = [''free'', ''entry'', ''win'', ''a'', ''cup'']"
proof -
  have s: "list_all is_space [CHR '' '', CHR 0x09, CHR 0x0A, CHR '' '']"
    by (simp add: is_space_def space_code_def)
  then have "\<forall>c\<in>set [CHR '' '', CHR 0x09, CHR 0x0A, CHR '' '']. is_space c"
    by (simp add: list_all_iff)
  with clean_refines_tokenize_spec [of "[CHR '' '', CHR 0x09, CHR 0x0A, CHR '' '']"]
  have "clean [CHR '' '', CHR 0x09, CHR 0x0A, CHR '' ''] = []" by blast
  moreover have e: "clean ''FREE entry, win a Cup!'' = tokenize_spec ''FREE entry, win a Cup!''"
    using clean_refines_tokenize_spec [of "''FREE entry, win a Cup!''"] by blast
  moreover have "tokenize_spec ''FREE entry, win a Cup!'' = [''free'', ''entry'', ''win'', ''a'', ''cup'']"
    using e by (simp add: clean_corpus)
  ultimately show ?thesis using s by blast
qed

text \<open>
  Claim C4, as the specification states it: training on an empty corpus, on a corpus with fewer
  than two categories or with a smoothing constant that is not positive reports a failure
  before any model is produced, and never leaves a partial model. The notebook assigns its
  four globals one after the other. On a corpus whose only label is \<open>spam\<close> the cell of the
  priors binds \<open>p_spam\<close> (to \<open>1.0\<close>) and then raises \<open>KeyError\<close> at \<open>proportions['ham']\<close>: a part
  of the model is there after the failure.
\<close>

theorem notebook_leaves_p_spam:
  "notebook f64 [(''spam'', ''FREE entry, win a Cup!'')] =
     (Some (KeyError ''ham''),
      \<lparr>name_p_spam = Some 1, name_p_ham = None, name_p_given_spam = None, name_p_given_ham = None\<rparr>)"
proof -
  have "notebook f64 [(''spam'', ''FREE entry, win a Cup!'')] =
      (Some (KeyError ''ham''),
       unbound\<lparr>name_p_spam := Some (f64 (prior ''spam'' [(''spam'', ''FREE entry, win a Cup!'')]))\<rparr>)"
    by (rule notebook_no_ham) simp_all
  then show ?thesis by (simp add: unbound_def prior_def f64_values)
qed

text \<open>
  Claim C4, amended. The smoothing constant is no input of training: it is the constant
  \<open>alpha = 1\<close> of the notebook. Training fails exactly when the corpus has no row labelled
  \<open>spam\<close> or no row labelled \<open>ham\<close>, which covers the empty corpus and every corpus with fewer
  than two categories. Without a \<open>spam\<close> row it raises \<open>KeyError\<close> at \<open>proportions['spam']\<close> with
  none of the four globals bound. With a \<open>spam\<close> row and no \<open>ham\<close> row it raises \<open>KeyError\<close> at
  \<open>proportions['ham']\<close> with \<open>p_spam\<close> bound to the share of the \<open>spam\<close> rows and the other three
  unbound. With both labels it raises nothing and binds all four to the model.
\<close>

theorem notebook_fails_iff_label_missing:
  "(''spam'' \<notin> fst ` set msgs_train \<longrightarrow>
      notebook rnd msgs_train = (Some (KeyError ''spam''), unbound)) \<and>
   (''spam'' \<in> fst ` set msgs_train \<and> ''ham'' \<notin> fst ` set msgs_train \<longrightarrow>
      notebook rnd msgs_train =
        (Some (KeyError ''ham''),
         \<lparr>name_p_spam =
            Some (rnd (real (length (filter (\<lambda>r. fst r = ''spam'') msgs_train)) / real (length msgs_train))),
          name_p_ham = None, name_p_given_spam = None, name_p_given_ham = None\<rparr>)) \<and>
   (''spam'' \<in> fst ` set msgs_train \<and> ''ham'' \<in> fst ` set msgs_train \<longrightarrow>
      (\<exists>m. train rnd alpha msgs_train = Inr m \<and>
           notebook rnd msgs_train =
             (None,
              \<lparr>name_p_spam = Some (p_spam m), name_p_ham = Some (p_ham m),
               name_p_given_spam = Some (p_given_spam m), name_p_given_ham = Some (p_given_ham m)\<rparr>)))"
proof -
  have "notebook rnd msgs_train = (Some (KeyError ''spam''), unbound)"
    if "''spam'' \<notin> fst ` set msgs_train"
    using that by (rule notebook_no_spam)
  moreover have "notebook rnd msgs_train =
        (Some (KeyError ''ham''),
         \<lparr>name_p_spam =
            Some (rnd (real (length (filter (\<lambda>r. fst r = ''spam'') msgs_train)) / real (length msgs_train))),
          name_p_ham = None, name_p_given_spam = None, name_p_given_ham = None\<rparr>)"
    if "''spam'' \<in> fst ` set msgs_train" and "''ham'' \<notin> fst ` set msgs_train"
    using notebook_no_ham [OF that, of rnd] by (simp add: unbound_def prior_def)
  moreover have "\<exists>m. train rnd alpha msgs_train = Inr m \<and>
           notebook rnd msgs_train =
             (None,
              \<lparr>name_p_spam = Some (p_spam m), name_p_ham = Some (p_ham m),
               name_p_given_spam = Some (p_given_spam m), name_p_given_ham = Some (p_given_ham m)\<rparr>)"
    if "''spam'' \<in> fst ` set msgs_train" and "''ham'' \<in> fst ` set msgs_train"
    using cells_ok [OF that, of rnd alpha] by auto
  ultimately show ?thesis by blast
qed

theorem notebook_fails_iff_label_missing_witness:
  "notebook f64 [] = (Some (KeyError ''spam''), unbound) \<and>
   notebook f64 [(''ham'', ''Ok lar... see u''), (''ham'', ''U free now?'')] =
     (Some (KeyError ''spam''), unbound) \<and>
   notebook f64 [(''spam'', ''b b a''), (''other'', ''a a b'')] =
     (Some (KeyError ''ham''),
      \<lparr>name_p_spam = Some (f64 (1 / 2)), name_p_ham = None, name_p_given_spam = None,
       name_p_given_ham = None\<rparr>) \<and>
   train f64 alpha corpus = Inr (corpus_model f64) \<and>
   notebook f64 corpus =
     (None,
      \<lparr>name_p_spam = Some (p_spam (corpus_model f64)), name_p_ham = Some (p_ham (corpus_model f64)),
       name_p_given_spam = Some (p_given_spam (corpus_model f64)),
       name_p_given_ham = Some (p_given_ham (corpus_model f64))\<rparr>)"
proof -
  have "notebook f64 [] = (Some (KeyError ''spam''), unbound)"
    using notebook_fails_iff_label_missing [of "[]" f64] by simp
  moreover have "notebook f64 [(''ham'', ''Ok lar... see u''), (''ham'', ''U free now?'')] =
      (Some (KeyError ''spam''), unbound)"
    using notebook_fails_iff_label_missing [of "[(''ham'', ''Ok lar... see u''), (''ham'', ''U free now?'')]" f64]
    by simp
  moreover have "notebook f64 [(''spam'', ''b b a''), (''other'', ''a a b'')] =
     (Some (KeyError ''ham''),
      \<lparr>name_p_spam = Some (f64 (1 / 2)), name_p_ham = None, name_p_given_spam = None,
       name_p_given_ham = None\<rparr>)"
    using notebook_fails_iff_label_missing [of "[(''spam'', ''b b a''), (''other'', ''a a b'')]" f64]
    by simp
  moreover have "notebook f64 corpus =
     (None,
      \<lparr>name_p_spam = Some (p_spam (corpus_model f64)), name_p_ham = Some (p_ham (corpus_model f64)),
       name_p_given_spam = Some (p_given_spam (corpus_model f64)),
       name_p_given_ham = Some (p_given_ham (corpus_model f64))\<rparr>)"
    using notebook_fails_iff_label_missing [of corpus f64] train_corpus [of f64]
    by (auto simp: corpus_def)
  ultimately show ?thesis using train_corpus by blast
qed




end
